theory Spec2Isabelle
  imports Complex_Main "HOL-Library.Multiset"
begin

section \<open>Tensors, boxes and errors\<close>

text \<open>
  The repository works on TensorFlow tensors. A rank-1 tensor is a list, a tensor of shape
  \<open>(N, 4)\<close> is a list of rows of four coordinates \<open>(x1, y1, x2, y2)\<close>, and a batch is a
  list of those. Entries of \<open>tf.float32\<close> tensors are read as real numbers: the statements
  below say which operation is applied to which component, and none of them is about
  rounding. Entries of \<open>tf.int32\<close> label tensors and Python integers are \<open>int\<close>.
\<close>

type_synonym box = "real \<times> real \<times> real \<times> real"

datatype error = IndexError | KeyError | ValueError

text \<open>\<open>boxes[:, k]\<close> for the constant column indices 0 to 3 used by the code.\<close>

fun coord :: "nat \<Rightarrow> box \<Rightarrow> real" where
  "coord k (a, b, c, d) = (if k = 0 then a else if k = 1 then b else if k = 2 then c else d)"

definition column :: "nat \<Rightarrow> box list \<Rightarrow> real list" where
  "column k boxes = map (coord k) boxes"

text \<open>Element-wise \<open>u - v\<close> and \<open>u * v\<close> of two rank-1 tensors of the same length.\<close>

definition tsub :: "real list \<Rightarrow> real list \<Rightarrow> real list" where
  "tsub u v = map2 (\<lambda>a b. a - b) u v"

definition tmul :: "real list \<Rightarrow> real list \<Rightarrow> real list" where
  "tmul u v = map2 (\<lambda>a b. a * b) u v"

text \<open>\<open>t *= c\<close> for a Python number \<open>c\<close>: every entry is multiplied by \<open>c\<close>.\<close>

definition tscale :: "real list \<Rightarrow> int \<Rightarrow> real list" where
  "tscale t c = map (\<lambda>v. v * of_int c) t"

text \<open>
  \<open>tf.split(boxes, 4, axis=1)\<close> cuts an \<open>(N, 4)\<close> tensor into its four columns, and
  \<open>tf.concat([x1, y1, x2, y2], axis=1)\<close> puts four columns side by side again.
\<close>

definition split4 :: "box list \<Rightarrow> real list \<times> real list \<times> real list \<times> real list" where
  "split4 boxes = (column 0 boxes, column 1 boxes, column 2 boxes, column 3 boxes)"

definition concat4 :: "real list \<Rightarrow> real list \<Rightarrow> real list \<Rightarrow> real list \<Rightarrow> box list" where
  "concat4 c0 c1 c2 c3 = zip c0 (zip c1 (zip c2 c3))"

text \<open>
  \<open>tf.transpose(tf.stack([c0, c1, c2, c3])).numpy().tolist()\<close>: the four columns are the
  rows of a \<open>(4, N)\<close> tensor, whose transpose is read out as a list of \<open>N\<close> lists.
\<close>

definition stack_transpose_tolist :: "real list list \<Rightarrow> real list list" where
  "stack_transpose_tolist cols = transpose cols"

text \<open>
  \<open>tf.boolean_mask(t, mask)\<close> keeps the entries of \<open>t\<close> whose mask bit is set; the mask
  must have the length of \<open>t\<close>.
\<close>

definition boolean_mask :: "'a list \<Rightarrow> bool list \<Rightarrow> error + 'a list" where
  "boolean_mask t msk =
     (if length t \<noteq> length msk then Inl ValueError
      else Inr (map fst (filter snd (zip t msk))))"

text \<open>A \<open>for\<close> loop whose body may raise: the first exception ends the loop.\<close>

fun for_each :: "('x \<Rightarrow> 's \<Rightarrow> error + 's) \<Rightarrow> 'x list \<Rightarrow> 's \<Rightarrow> error + 's" where
  "for_each body [] s = Inr s"
| "for_each body (x # xs) s =
     (case body x s of Inl e \<Rightarrow> Inl e | Inr s' \<Rightarrow> for_each body xs s')"

section \<open>data/voc.py\<close>

subsection \<open>\<open>_scale_boxes\<close>\<close>

definition scale_boxes :: "int list \<Rightarrow> box list \<Rightarrow> int \<times> int \<Rightarrow> int list \<times> box list" where
  "scale_boxes labels boxes to_size =
     (case to_size of (h, w) \<Rightarrow>
      (case split4 boxes of (x1, y1, x2, y2) \<Rightarrow>
         (let x1 = tscale x1 w;
              x2 = tscale x2 w;
              y1 = tscale y1 h;
              y2 = tscale y2 h
          in (labels, concat4 x1 y1 x2 y2))))"

subsection \<open>The label table\<close>

definition IDX_2_LABEL :: "string list" where
  "IDX_2_LABEL = [''bin'']"

text \<open>
  The dictionary comprehension \<open>{l: i for i, l in enumerate(names)}\<close>: the entries are
  stored one by one, a later entry replacing an earlier one with the same key.
\<close>

definition store_label :: "nat \<times> 'a \<Rightarrow> ('a \<rightharpoonup> int) \<Rightarrow> ('a \<rightharpoonup> int)" where
  "store_label e d = (case e of (i, l) \<Rightarrow> d(l \<mapsto> int i))"

definition label_dict :: "'a list \<Rightarrow> ('a \<rightharpoonup> int)" where
  "label_dict names = fold store_label (enumerate 0 names) Map.empty"

definition LABEL_2_IDX :: "string \<rightharpoonup> int" where
  "LABEL_2_IDX = label_dict IDX_2_LABEL"

subsection \<open>\<open>_read_voc_annot\<close>\<close>

text \<open>
  A parsed annotation file: the \<open>size\<close> element and the \<open>object\<close> elements, with the
  integer fields already read. Files that are not well-formed VOC documents are outside
  the model.
\<close>

record voc_object =
  obj_name :: string
  obj_xmin :: int
  obj_ymin :: int
  obj_xmax :: int
  obj_ymax :: int

record voc_annot =
  size_height :: int
  size_width :: int
  objects :: "voc_object list"

text \<open>
  Modelled from the spec: \<open>efficientdet.utils.bndbox.normalize_bndboxes\<close>, which is not
  among the sources. The specification says that it divides the x coordinates by the
  image width and the y coordinates by the image height.
\<close>

definition normalize_bndboxes :: "(int \<times> int \<times> int \<times> int) list \<Rightarrow> int \<times> int \<Rightarrow> box list" where
  "normalize_bndboxes boxes image_size =
     (case image_size of (h, w) \<Rightarrow>
        map (\<lambda>(x1, y1, x2, y2). (of_int x1 / of_int w, of_int y1 / of_int h,
                                  of_int x2 / of_int w, of_int y2 / of_int h)) boxes)"

text \<open>
  The body of the loop over the objects: the state is the pair of the lists \<open>bbs\<close> and
  \<open>labels\<close>; a name that is not a key of \<open>LABEL_2_IDX\<close> raises \<open>KeyError\<close>. For an
  annotation without objects the model returns no labels and no boxes; what the tensor
  operations of the source do with an empty list of boxes is not modelled.
\<close>

definition read_object ::
  "voc_object \<Rightarrow> (int \<times> int \<times> int \<times> int) list \<times> int list \<Rightarrow>
   error + ((int \<times> int \<times> int \<times> int) list \<times> int list)" where
  "read_object b st =
     (case st of (bbs, labels) \<Rightarrow>
        (let bb = (obj_xmin b, obj_ymin b, obj_xmax b, obj_ymax b)
         in case LABEL_2_IDX (obj_name b) of
              None \<Rightarrow> Inl KeyError
            | Some l \<Rightarrow> Inr (bbs @ [bb], labels @ [l])))"

definition read_voc_annot :: "voc_annot \<Rightarrow> error + (int list \<times> box list)" where
  "read_voc_annot annot =
     (let image_size = (size_height annot, size_width annot);
          boxes = objects annot
      in case for_each read_object boxes ([], []) of
           Inl e \<Rightarrow> Inl e
         | Inr (bbs, labels) \<Rightarrow> Inr (labels, normalize_bndboxes bbs image_size))"

subsection \<open>Datasets\<close>

text \<open>
  A \<open>tf.data\<close> dataset is iterated lazily. It is modelled by what an iteration over it
  gives: the elements it yields, in order, and the exception that ends the iteration, if
  one is raised.
\<close>

type_synonym 'a dataset = "'a list \<times> error option"

text \<open>\<open>_annot_gen\<close>: one element per annotation file, until a file fails to be read.\<close>

fun annot_gen :: "voc_annot list \<Rightarrow> (int list \<times> box list) dataset" where
  "annot_gen [] = ([], None)"
| "annot_gen (f # fs) =
     (case read_voc_annot f of
        Inl e \<Rightarrow> ([], Some e)
      | Inr x \<Rightarrow> (case annot_gen fs of (xs, r) \<Rightarrow> (x # xs, r)))"

definition ds_map :: "('a \<Rightarrow> 'b) \<Rightarrow> 'a dataset \<Rightarrow> 'b dataset" where
  "ds_map f ds = (map f (fst ds), snd ds)"

text \<open>
  \<open>Dataset.zip\<close> asks its first input for an element, then its second, and ends when
  either has none; so an exception of the second input is only raised when the first input
  still has an element.
\<close>

definition ds_zip :: "'a dataset \<Rightarrow> 'b dataset \<Rightarrow> ('a \<times> 'b) dataset" where
  "ds_zip a b =
     (zip (fst a) (fst b), if length (fst a) \<le> length (fst b) then snd a else snd b)"

text \<open>Consecutive groups of \<open>n\<close> elements; the last group may be shorter.\<close>

function chunks :: "nat \<Rightarrow> 'a list \<Rightarrow> 'a list list" where
  "chunks n xs = (if n = 0 \<or> xs = [] then [] else take n xs # chunks n (drop n xs))"
  by pat_completeness auto
termination
  by (relation "measure (\<lambda>(n, xs). length xs)") auto

declare chunks.simps [simp del]

definition pad_to :: "nat \<Rightarrow> 'a \<Rightarrow> 'a list \<Rightarrow> 'a list" where
  "pad_to n v xs = xs @ replicate (n - length xs) v"

definition max_length :: "'a list list \<Rightarrow> nat" where
  "max_length rows = fold max (map length rows) 0"

record 'px image_tensor =
  t_height :: int
  t_width :: int
  t_data :: "'px list"

type_synonym 'px batch = "'px image_tensor \<times> (int list list \<times> box list list)"

text \<open>
  One batch of \<open>padded_batch\<close> with \<open>padded_shapes = ((h, w, 3), ((None,), (None, 4)))\<close>
  and \<open>padding_values = (0., (-1, 0.))\<close>: the images are stacked, every label tensor is
  filled up with \<open>-1\<close> to the longest of the batch, and every box tensor with rows of
  \<open>0.\<close> to the longest of the batch.
\<close>

definition pad_batch ::
  "int \<times> int \<Rightarrow> ('px \<times> (int list \<times> box list)) list \<Rightarrow> 'px batch" where
  "pad_batch im_input_size es =
     (let labels = map (\<lambda>e. fst (snd e)) es;
          bbs = map (\<lambda>e. snd (snd e)) es
      in (\<lparr>t_height = fst im_input_size, t_width = snd im_input_size, t_data = map fst es\<rparr>,
          (map (pad_to (max_length labels) (- 1)) labels,
           map (pad_to (max_length bbs) (0, 0, 0, 0)) bbs)))"

text \<open>
  \<open>padded_batch\<close> yields a batch for every \<open>batch_size\<close> elements of its input, and a last,
  shorter one for the elements left over when the input ends; when the input raises, the
  elements gathered for the unfinished batch are lost. A batch size of zero is refused.
\<close>

definition padded_batch ::
  "nat \<Rightarrow> int \<times> int \<Rightarrow> ('px \<times> (int list \<times> box list)) dataset \<Rightarrow> 'px batch dataset" where
  "padded_batch batch_size im_input_size ds =
     (if batch_size = 0 then ([], Some ValueError)
      else case ds of (xs, r) \<Rightarrow>
        (map (pad_batch im_input_size)
             (chunks batch_size
                (if r = None then xs else take (batch_size * (length xs div batch_size)) xs)),
         r))"

text \<open>
  \<open>shuffle(buffer_size)\<close>: before it yields an element, the dataset fills its buffer from
  its input up to \<open>buffer_size\<close> elements, then yields the element of the buffer at a random
  position. \<open>rnd k\<close> is the \<open>k\<close>-th draw of the random source. An exception of the input
  met while filling the buffer ends the iteration.
\<close>

definition fill_buffer :: "nat \<Rightarrow> 'a list \<Rightarrow> 'a list \<Rightarrow> 'a list \<times> 'a list" where
  "fill_buffer buffer_size buf xs =
     (buf @ take (buffer_size - length buf) xs, drop (buffer_size - length buf) xs)"

definition remove_nth :: "nat \<Rightarrow> 'a list \<Rightarrow> 'a list" where
  "remove_nth i xs = take i xs @ drop (Suc i) xs"

function shuffle_loop ::
  "(nat \<Rightarrow> nat) \<Rightarrow> nat \<Rightarrow> nat \<Rightarrow> 'a list \<Rightarrow> 'a list \<Rightarrow> error option \<Rightarrow> 'a dataset" where
  "shuffle_loop rnd buffer_size k buf xs r =
     (case fill_buffer buffer_size buf xs of (buf', xs') \<Rightarrow>
        if length buf' < buffer_size \<and> r \<noteq> None then ([], r)
        else if buf' = [] then ([], None)
        else
          (let i = rnd k mod length buf'
           in case shuffle_loop rnd buffer_size (Suc k) (remove_nth i buf') xs' r of
                (out, r') \<Rightarrow> (buf' ! i # out, r')))"
  by pat_completeness auto
termination
proof (relation "measure (\<lambda>(rnd, buffer_size, k, buf, xs, r). length buf + length xs)", goal_cases)
  case 1
  show ?case by simp
next
  case (2 rnd buffer_size k buf xs r buf' xs' i)
  from 2(1) have total: "length buf' + length xs' = length buf + length xs"
    by (auto simp: fill_buffer_def)
  from 2(3) have "rnd k mod length buf' < length buf'" by simp
  then have "length (remove_nth (rnd k mod length buf') buf') < length buf'"
    by (simp add: remove_nth_def)
  with total 2(4) show ?case by simp
qed

declare shuffle_loop.simps [simp del]

definition shuffle_ds :: "nat \<Rightarrow> (nat \<Rightarrow> nat) \<Rightarrow> 'a dataset \<Rightarrow> 'a dataset" where
  "shuffle_ds buffer_size rnd ds = shuffle_loop rnd buffer_size 0 [] (fst ds) (snd ds)"

subsection \<open>\<open>build_dataset\<close>\<close>

text \<open>
  The directory \<open>dataset_path\<close> is given by its contents: \<open>im_ds\<close> is the dataset of the
  image files, loaded, resized to \<open>im_input_size\<close> and normalised, and \<open>annot_files\<close> are the
  annotation files in sorted order.
\<close>

definition build_dataset ::
  "'px dataset \<Rightarrow> voc_annot list \<Rightarrow> int \<times> int \<Rightarrow> bool \<Rightarrow> nat \<Rightarrow> (nat \<Rightarrow> nat) \<Rightarrow>
   'px batch dataset" where
  "build_dataset im_ds annot_files im_input_size shuffle batch_size rnd =
     (let annot_ds = ds_map (\<lambda>(labels, boxes). scale_boxes labels boxes im_input_size)
                            (annot_gen annot_files);
          ds = padded_batch batch_size im_input_size (ds_zip im_ds annot_ds)
      in if shuffle then shuffle_ds 128 rnd ds else ds)"

section \<open>engine.py\<close>

subsection \<open>COCO records\<close>

record coco_result =
  res_image_id :: int
  res_category_id :: int
  res_bbox :: "real list"
  res_score :: real

record coco_image =
  img_id :: int
  img_height :: int
  img_width :: int

record coco_annot =
  ann_id :: int
  ann_image_id :: int
  ann_bbox :: "real list"
  ann_iscrowd :: int
  ann_area :: real
  ann_category_id :: int

subsection \<open>\<open>_COCO_result\<close>\<close>

definition COCO_result ::
  "int \<Rightarrow> int list \<Rightarrow> box list \<Rightarrow> real list \<Rightarrow> coco_result list" where
  "COCO_result image_id labels bboxes scores =
     (let b_h = tsub (column 3 bboxes) (column 1 bboxes);
          b_w = tsub (column 2 bboxes) (column 0 bboxes);
          coco_bboxes = stack_transpose_tolist [column 0 bboxes, column 1 bboxes, b_w, b_h]
      in map (\<lambda>(l, b, s). \<lparr>res_image_id = image_id, res_category_id = l,
                            res_bbox = b, res_score = s\<rparr>)
             (zip labels (zip coco_bboxes scores)))"

subsection \<open>\<open>_COCO_gt_annot\<close>\<close>

text \<open>
  The loop over \<open>range(len(coco_bboxes))\<close>. Its state is the running \<open>annot_id\<close> and the
  list \<open>annotations\<close>; \<open>labels[i]\<close> raises when the label tensor is shorter than the boxes.
  \<open>areas\<close> has one entry per box, as \<open>coco_bboxes\<close> has.
\<close>

definition annot_body ::
  "int \<Rightarrow> real list list \<Rightarrow> real list \<Rightarrow> int list \<Rightarrow> nat \<Rightarrow>
   int \<times> coco_annot list \<Rightarrow> error + (int \<times> coco_annot list)" where
  "annot_body image_id coco_bboxes areas labels i st =
     (case st of (annot_id, annotations) \<Rightarrow>
        if i < length labels then
          Inr (annot_id + 1,
               annotations @ [\<lparr>ann_id = annot_id, ann_image_id = image_id,
                                ann_bbox = coco_bboxes ! i, ann_iscrowd = 0,
                                ann_area = areas ! i, ann_category_id = labels ! i\<rparr>])
        else Inl IndexError)"

definition COCO_gt_annot ::
  "int \<Rightarrow> int \<Rightarrow> int \<times> int \<Rightarrow> int list \<Rightarrow> box list \<Rightarrow>
   error + (coco_image \<times> coco_annot list)" where
  "COCO_gt_annot image_id annot_id image_shape labels bboxes =
     (case image_shape of (im_h, im_w) \<Rightarrow>
      (let b_h = tsub (column 3 bboxes) (column 1 bboxes);
           b_w = tsub (column 2 bboxes) (column 0 bboxes);
           areas = tmul b_h b_w;
           coco_bboxes = stack_transpose_tolist [column 0 bboxes, column 1 bboxes, b_w, b_h];
           image = \<lparr>img_id = image_id, img_height = im_h, img_width = im_w\<rparr>
       in (case for_each (annot_body image_id coco_bboxes areas labels)
                     [0..<length coco_bboxes] (annot_id, [])
           of Inl e \<Rightarrow> Inl e
            | Inr (annot_id', annotations) \<Rightarrow> Inr (image, annotations))))"

subsection \<open>\<open>evaluate\<close>\<close>

text \<open>
  A batch of images is a tensor of shape \<open>(B, H, W, 3)\<close>: its spatial shape and one entry
  per image. A dataset element is the tuple \<open>(images, (labels, bbs))\<close>. The model called
  with \<open>training=False\<close> returns \<open>(bboxes, categories, scores)\<close>, each with one tensor per
  image, of any length.
\<close>

type_synonym detections = "box list list \<times> int list list \<times> real list list"

record eval_state =
  gt_images :: "coco_image list"
  gt_annotations :: "coco_annot list"
  results_coco :: "coco_result list"
  st_image_id :: int
  st_annot_id :: int

record coco_category =
  cat_supercategory :: string
  cat_id :: int
  cat_name :: string

record gt_dataset =
  ds_images :: "coco_image list"
  ds_annotations :: "coco_annot list"
  ds_categories :: "coco_category list"

text \<open>The body of the loop \<open>for batch_idx in range(len(bboxes))\<close>.\<close>

definition eval_image ::
  "int \<times> int \<Rightarrow> int list list \<Rightarrow> box list list \<Rightarrow> detections \<Rightarrow> nat \<Rightarrow>
   eval_state \<Rightarrow> error + eval_state" where
  "eval_image hw labels bbs preds batch_idx st =
     (case preds of (bboxes, categories, scores) \<Rightarrow>
      if length labels \<le> batch_idx \<or> length bbs \<le> batch_idx then Inl IndexError
      else
        (let gt_labels = labels ! batch_idx;
             gt_boxes = bbs ! batch_idx;
             no_padding_mask = map (\<lambda>l. l \<noteq> - 1) gt_labels
         in case boolean_mask gt_labels no_padding_mask of
              Inl e \<Rightarrow> Inl e
            | Inr gt_labels \<Rightarrow>
          (case boolean_mask gt_boxes no_padding_mask of
              Inl e \<Rightarrow> Inl e
            | Inr gt_boxes \<Rightarrow>
          (case COCO_gt_annot (st_image_id st) (st_annot_id st) hw gt_labels gt_boxes of
              Inl e \<Rightarrow> Inl e
            | Inr (im_annot, annots) \<Rightarrow>
              if length categories \<le> batch_idx \<or> length bboxes \<le> batch_idx
                 \<or> length scores \<le> batch_idx
              then Inl IndexError
              else
                (let pred_labels = categories ! batch_idx;
                     pred_boxes = bboxes ! batch_idx;
                     pred_scores = scores ! batch_idx;
                     results = (if length pred_labels > 0
                                then COCO_result (st_image_id st)
                                       pred_labels pred_boxes pred_scores
                                else [])
                 in Inr \<lparr>gt_images = gt_images st @ [im_annot],
                         gt_annotations = gt_annotations st @ annots,
                         results_coco = results_coco st @ results,
                         st_image_id = st_image_id st + 1,
                         st_annot_id = st_annot_id st + int (length annots)\<rparr>)))))"

text \<open>The body of the loop over the dataset.\<close>

definition eval_batch ::
  "('px image_tensor \<Rightarrow> error + detections) \<Rightarrow> 'px batch \<Rightarrow> eval_state \<Rightarrow>
   error + eval_state" where
  "eval_batch model batch st =
     (case batch of (images, (labels, bbs)) \<Rightarrow>
      (case model images of
         Inl e \<Rightarrow> Inl e
       | Inr (bboxes, categories, scores) \<Rightarrow>
           for_each (eval_image (t_height images, t_width images) labels bbs
                                (bboxes, categories, scores))
                    [0..<length bboxes] st))"

text \<open>
  \<open>evaluate\<close> up to the point where the two collections are handed to the COCO scorer:
  the ground-truth dataset \<open>gt_coco\<close> and the detections \<open>results_coco\<close>. The loop over
  the dataset runs the body on the batches the dataset yields, and an exception that ends
  the iteration of the dataset ends \<open>evaluate\<close>.
\<close>

definition evaluate ::
  "('px image_tensor \<Rightarrow> error + detections) \<Rightarrow> 'px batch dataset \<Rightarrow> (string \<times> int) list \<Rightarrow>
   error + (gt_dataset \<times> coco_result list)" where
  "evaluate model dataset class2idx =
     (let categories = map (\<lambda>(n, i). \<lparr>cat_supercategory = ''instance'', cat_id = i,
                                       cat_name = n\<rparr>) class2idx
      in case for_each (eval_batch model) (fst dataset)
                \<lparr>gt_images = [], gt_annotations = [], results_coco = [],
                 st_image_id = 1, st_annot_id = 1\<rparr>
         of Inl e \<Rightarrow> Inl e
          | Inr st \<Rightarrow>
              (case snd dataset of
                 Some e \<Rightarrow> Inl e
               | None \<Rightarrow> Inr (\<lparr>ds_images = gt_images st, ds_annotations = gt_annotations st,
                                  ds_categories = categories\<rparr>,
                                 results_coco st)))"

section \<open>models/efficientdet.py\<close>

subsection \<open>Tensor operations\<close>

text \<open>
  \<open>tf.concat(ts, axis=1)\<close> of tensors of shape \<open>(B, n)\<close>: row \<open>b\<close> of the result is the
  rows \<open>b\<close> of the inputs one after the other. The inputs must agree on \<open>B\<close>, and there
  must be one at least. \<open>tf.concat(ts, axis=0)\<close> puts the inputs one after the other.
\<close>

definition concat_axis1 :: "'a list list list \<Rightarrow> error + 'a list list" where
  "concat_axis1 ts =
     (if ts = [] \<or> (\<exists>t\<in>set ts. length t \<noteq> length (hd ts)) then Inl ValueError
      else Inr (map (\<lambda>b. concat (map (\<lambda>t. t ! b) ts)) [0..<length (hd ts)]))"

definition concat_axis0 :: "'a list list \<Rightarrow> error + 'a list" where
  "concat_axis0 ts = (if ts = [] then Inl ValueError else Inr (concat ts))"

text \<open>
  \<open>tf.reshape(t, [b, -1, k])\<close>: the entries of \<open>t\<close>, read row by row, are regrouped into
  \<open>b\<close> blocks of rows of \<open>k\<close> entries; their number must be a multiple of \<open>b * k\<close>.
\<close>

definition reshape3 :: "nat \<Rightarrow> nat \<Rightarrow> 'a list list \<Rightarrow> error + 'a list list list" where
  "reshape3 b k t =
     (let flat = concat t
      in if b * k = 0 \<or> length flat mod (b * k) \<noteq> 0 then Inl ValueError
         else if flat = [] then Inr (replicate b [])
         else Inr (map (chunks k) (chunks (length flat div b) flat)))"

fun to_box :: "real list \<Rightarrow> box" where
  "to_box [a, b, c, d] = (a, b, c, d)"
| "to_box row = (0, 0, 0, 0)"

subsection \<open>The model and its collaborators\<close>

text \<open>
  A feature map of one image has a shape; its content is left open. A feature tensor of
  shape \<open>(B, H, W, C)\<close> is the list of the feature maps of the images of the batch.
\<close>

record 'c fmap =
  fm_shape :: "nat list"
  fm_data :: 'c

text \<open>
  The backbone, the neck and the two heads are neural networks, given as functions: the
  neck returns one feature tensor per pyramid level, a head turns a feature tensor into a
  tensor of shape \<open>(B, n)\<close>. An anchor generator turns the shape of a feature map into the
  anchors of that level.
\<close>

record ('px, 'fs, 'c) EfficientDet =
  num_classes :: nat
  backbone :: "'px image_tensor \<Rightarrow> bool \<Rightarrow> 'fs"
  neck :: "'fs \<Rightarrow> bool \<Rightarrow> 'c fmap list list"
  class_head :: "'c fmap list \<Rightarrow> real list list"
  bb_head :: "'c fmap list \<Rightarrow> real list list"
  anchors_gen :: "(nat list \<Rightarrow> box list) list"

record anchors_config =
  sizes :: "real list"
  ratios :: "real list"
  strides :: "real list"

text \<open>
  The functions of \<open>efficientdet.utils.bndbox\<close> used by the model are not among the
  sources; they are parameters of the model, and each may raise.
\<close>

record bndbox_utils =
  regress_bndboxes :: "box list list \<Rightarrow> box list list \<Rightarrow> error + box list list"
  clip_boxes :: "box list list \<Rightarrow> int \<times> int \<Rightarrow> error + box list list"
  nms :: "box list list \<Rightarrow> real list list list \<Rightarrow> error + detections"

datatype call_result =
  Training "real list list" "real list list"
| Inference "box list list" "int list list" "real list list"

subsection \<open>\<open>EfficientDet.__init__\<close>\<close>

text \<open>
  The constructor, with the networks it builds and the class \<open>AnchorGenerator\<close> given:
  \<open>anchors_gen\<close> holds one generator for each \<open>i\<close> in \<open>range(3, 8)\<close>, built from entry
  \<open>i - 3\<close> of the configured sizes and strides.
\<close>

definition EfficientDet_init ::
  "nat \<Rightarrow> ('px image_tensor \<Rightarrow> bool \<Rightarrow> 'fs) \<Rightarrow> ('fs \<Rightarrow> bool \<Rightarrow> 'c fmap list list) \<Rightarrow>
   ('c fmap list \<Rightarrow> real list list) \<Rightarrow> ('c fmap list \<Rightarrow> real list list) \<Rightarrow>
   (real \<Rightarrow> real list \<Rightarrow> real \<Rightarrow> nat list \<Rightarrow> box list) \<Rightarrow> anchors_config \<Rightarrow>
   error + ('px, 'fs, 'c) EfficientDet" where
  "EfficientDet_init n_classes backbone_net neck_net class_net bb_net AnchorGenerator config =
     (if length (sizes config) < 5 \<or> length (strides config) < 5 then Inl IndexError
      else Inr \<lparr>num_classes = n_classes, backbone = backbone_net, neck = neck_net,
                class_head = class_net, bb_head = bb_net,
                anchors_gen = map (\<lambda>i. AnchorGenerator (sizes config ! (i - 3)) (ratios config)
                                                       (strides config ! (i - 3)))
                                  [3..<8]\<rparr>)"

subsection \<open>\<open>EfficientDet.call\<close>\<close>

text \<open>
  The list comprehension \<open>[g(f[0].shape) for g, f in zip(self.anchors_gen, features)]\<close>;
  \<open>f[0]\<close> raises on a feature tensor of an empty batch.
\<close>

fun level_anchors ::
  "((nat list \<Rightarrow> box list) \<times> 'c fmap list) list \<Rightarrow> error + box list list" where
  "level_anchors [] = Inr []"
| "level_anchors ((g, f) # rest) =
     (if f = [] then Inl IndexError
      else case level_anchors rest of
             Inl e \<Rightarrow> Inl e
           | Inr anchors \<Rightarrow> Inr (g (fm_shape (f ! 0)) # anchors))"

definition call ::
  "('px, 'fs, 'c) EfficientDet \<Rightarrow> bndbox_utils \<Rightarrow> 'px image_tensor \<Rightarrow> bool \<Rightarrow>
   error + call_result" where
  "call self utils images training =
     (let features = backbone self images training;
          bifnp_features = neck self features training;
          bboxes = map (bb_head self) bifnp_features;
          class_scores = map (class_head self) bifnp_features
      in case concat_axis1 bboxes of Inl e \<Rightarrow> Inl e | Inr bboxes \<Rightarrow>
        (case concat_axis1 class_scores of Inl e \<Rightarrow> Inl e | Inr class_scores \<Rightarrow>
           if training then Inr (Training bboxes class_scores)
           else
        (case level_anchors (zip (anchors_gen self) bifnp_features) of
           Inl e \<Rightarrow> Inl e | Inr anchors \<Rightarrow>
        (case concat_axis0 anchors of Inl e \<Rightarrow> Inl e | Inr anchors \<Rightarrow>
        (let batch_size = length bboxes;
             anchors = replicate batch_size anchors
         in case reshape3 batch_size (num_classes self) class_scores of
              Inl e \<Rightarrow> Inl e | Inr class_scores \<Rightarrow>
        (case reshape3 batch_size 4 bboxes of Inl e \<Rightarrow> Inl e | Inr bboxes \<Rightarrow>
        (let bboxes = map (map to_box) bboxes
         in case regress_bndboxes utils anchors bboxes of Inl e \<Rightarrow> Inl e | Inr boxes \<Rightarrow>
        (case clip_boxes utils boxes (t_height images, t_width images) of
           Inl e \<Rightarrow> Inl e | Inr boxes \<Rightarrow>
        (case nms utils boxes class_scores of
           Inl e \<Rightarrow> Inl e
         | Inr (boxes, labels, scores) \<Rightarrow> Inr (Inference boxes labels scores))))))))))"

section \<open>The inference pipeline\<close>

text \<open>
  Decoding, then clipping, then non-maximum suppression, as the specification orders
  them: each step works on the result of the step before.
\<close>

definition decode_clip_nms ::
  "bndbox_utils \<Rightarrow> box list list \<Rightarrow> box list list \<Rightarrow> real list list list \<Rightarrow> int \<times> int \<Rightarrow>
   error + call_result" where
  "decode_clip_nms utils anchors deltas class_scores image_shape =
     (case regress_bndboxes utils anchors deltas of
        Inl e \<Rightarrow> Inl e
      | Inr decoded \<Rightarrow>
          (case clip_boxes utils decoded image_shape of
             Inl e \<Rightarrow> Inl e
           | Inr clipped \<Rightarrow>
               (case nms utils clipped class_scores of
                  Inl e \<Rightarrow> Inl e
                | Inr (boxes, labels, scores) \<Rightarrow> Inr (Inference boxes labels scores))))"

text \<open>The four entries of a row of a \<open>(B, N, 4)\<close> tensor that a box stands for.\<close>

definition box_row :: "box \<Rightarrow> real list" where
  "box_row b = (case b of (x1, y1, x2, y2) \<Rightarrow> [x1, y1, x2, y2])"

section \<open>A small instance\<close>

text \<open>
  A model with five pyramid levels for batches of two images, used to run the definitions
  on concrete inputs: every level has a feature map of shape \<open>(1, 1, 8)\<close> and one anchor,
  the heads return constant tensors, and the box utilities hand their first argument on,
  so that the model returns the anchors it decoded against.
\<close>

definition demo_config :: anchors_config where
  "demo_config = \<lparr>sizes = [32, 64, 128, 256, 512], ratios = [1],
                   strides = [8, 16, 32, 64, 128]\<rparr>"

definition demo_generator :: "real \<Rightarrow> real list \<Rightarrow> real \<Rightarrow> nat list \<Rightarrow> box list" where
  "demo_generator base_size aspect_ratios stride shape = [(0, 0, base_size, base_size)]"

definition demo_fmap :: "unit fmap" where
  "demo_fmap = \<lparr>fm_shape = [1, 1, 8], fm_data = ()\<rparr>"

definition demo_backbone :: "unit image_tensor \<Rightarrow> bool \<Rightarrow> unit" where
  "demo_backbone images training = ()"

definition demo_neck :: "unit \<Rightarrow> bool \<Rightarrow> unit fmap list list" where
  "demo_neck features training =
     [[demo_fmap, demo_fmap], [demo_fmap, demo_fmap], [demo_fmap, demo_fmap],
      [demo_fmap, demo_fmap], [demo_fmap, demo_fmap]]"

definition demo_class_head :: "unit fmap list \<Rightarrow> real list list" where
  "demo_class_head f = map (\<lambda>m. [1 / 2]) f"

definition demo_bb_head :: "unit fmap list \<Rightarrow> real list list" where
  "demo_bb_head f = map (\<lambda>m. [0, 0, 0, 0]) f"

definition demo_utils :: bndbox_utils where
  "demo_utils = \<lparr>regress_bndboxes = (\<lambda>anchors deltas. Inr anchors),
                  clip_boxes = (\<lambda>boxes shape. Inr boxes),
                  nms = (\<lambda>boxes scores. Inr (boxes, [], []))\<rparr>"

definition demo_images :: "unit image_tensor" where
  "demo_images = \<lparr>t_height = 64, t_width = 64, t_data = [(), ()]\<rparr>"

definition demo_model :: "(unit, unit, unit) EfficientDet" where
  "demo_model =
     \<lparr>num_classes = 1, backbone = demo_backbone, neck = demo_neck,
      class_head = demo_class_head, bb_head = demo_bb_head,
      anchors_gen = [demo_generator 32 [1] 8, demo_generator 64 [1] 16,
                     demo_generator 128 [1] 32, demo_generator 256 [1] 64,
                     demo_generator 512 [1] 128]\<rparr>"

text \<open>
  A second instance whose box head returns the deltas \<open>(1, 2, 3, 4)\<close> for every anchor, with
  box utilities that hand on the deltas and the class scores they are given, so that the
  model returns what it decoded and what it scored.
\<close>

definition demo_delta_head :: "unit fmap list \<Rightarrow> real list list" where
  "demo_delta_head f = map (\<lambda>m. [1, 2, 3, 4]) f"

definition demo_probe_model :: "(unit, unit, unit) EfficientDet" where
  "demo_probe_model =
     \<lparr>num_classes = 1, backbone = demo_backbone, neck = demo_neck,
      class_head = demo_class_head, bb_head = demo_delta_head,
      anchors_gen = [demo_generator 32 [1] 8, demo_generator 64 [1] 16,
                     demo_generator 128 [1] 32, demo_generator 256 [1] 64,
                     demo_generator 512 [1] 128]\<rparr>"

definition demo_probe_utils :: bndbox_utils where
  "demo_probe_utils = \<lparr>regress_bndboxes = (\<lambda>anchors deltas. Inr deltas),
                        clip_boxes = (\<lambda>boxes shape. Inr boxes),
                        nms = (\<lambda>boxes scores. Inr (boxes, [], map concat scores))\<rparr>"

definition demo_deltas :: "box list" where
  "demo_deltas = [(1, 2, 3, 4), (1, 2, 3, 4), (1, 2, 3, 4), (1, 2, 3, 4), (1, 2, 3, 4)]"

definition demo_anchors :: "box list" where
  "demo_anchors = [(0, 0, 32, 32), (0, 0, 64, 64), (0, 0, 128, 128), (0, 0, 256, 256),
                   (0, 0, 512, 512)]"

section \<open>The COCO box convention\<close>

text \<open>The exchange format of the specification: \<open>(x_min, y_min, width, height)\<close>.\<close>

definition xywh :: "box \<Rightarrow> real list" where
  "xywh b = (case b of (x1, y1, x2, y2) \<Rightarrow> [x1, y1, x2 - x1, y2 - y1])"

text \<open>
  The records that a list of ground-truth entries \<open>(label, box)\<close> of one image stands for,
  numbered from \<open>a\<close> on.
\<close>

definition annots_of :: "int \<Rightarrow> int \<Rightarrow> (int \<times> box) list \<Rightarrow> coco_annot list" where
  "annots_of iid a es =
     map (\<lambda>k. \<lparr>ann_id = a + int k, ann_image_id = iid,
                 ann_bbox = xywh (snd (es ! k)), ann_iscrowd = 0,
                 ann_area = (coord 3 (snd (es ! k)) - coord 1 (snd (es ! k))) *
                            (coord 2 (snd (es ! k)) - coord 0 (snd (es ! k))),
                 ann_category_id = fst (es ! k)\<rparr>)
         [0..<length es]"

text \<open>The ground-truth entries of one image that are not padding.\<close>

definition real_entries :: "int list \<Rightarrow> box list \<Rightarrow> (int \<times> box) list" where
  "real_entries gt_labels gt_boxes = filter (\<lambda>e. fst e \<noteq> - 1) (zip gt_labels gt_boxes)"


section \<open>Coordinate ranges\<close>

text \<open>
  A box in normalized-fraction coordinates has its four coordinates in \<open>[0, 1]\<close>; a box in
  pixel coordinates of an image of height \<open>h\<close> and width \<open>w\<close> has its x coordinates in
  \<open>[0, w]\<close> and its y coordinates in \<open>[0, h]\<close>.
\<close>

definition normalized_box :: "box \<Rightarrow> bool" where
  "normalized_box b =
     (case b of (x1, y1, x2, y2) \<Rightarrow>
        0 \<le> x1 \<and> x1 \<le> 1 \<and> 0 \<le> y1 \<and> y1 \<le> 1 \<and> 0 \<le> x2 \<and> x2 \<le> 1 \<and> 0 \<le> y2 \<and> y2 \<le> 1)"

definition pixel_box :: "int \<times> int \<Rightarrow> box \<Rightarrow> bool" where
  "pixel_box im_size b =
     (case im_size of (h, w) \<Rightarrow>
      (case b of (x1, y1, x2, y2) \<Rightarrow>
        0 \<le> x1 \<and> x1 \<le> of_int w \<and> 0 \<le> y1 \<and> y1 \<le> of_int h \<and>
        0 \<le> x2 \<and> x2 \<le> of_int w \<and> 0 \<le> y2 \<and> y2 \<le> of_int h))"

section \<open>Well-formed inputs and invariants\<close>

text \<open>
  Image \<open>i\<close> of a batch can be processed by the loop body of \<open>evaluate\<close>: the batch has
  a row of labels and a row of boxes for it, of the same length, and the model returned a
  list of boxes, of categories and of scores for it.
\<close>

definition image_ok :: "int list list \<Rightarrow> box list list \<Rightarrow> detections \<Rightarrow> nat \<Rightarrow> bool" where
  "image_ok labels bbs preds i =
     (case preds of (bboxes, categories, scores) \<Rightarrow>
        i < length labels \<and> i < length bbs \<and> length (labels ! i) = length (bbs ! i) \<and>
        i < length categories \<and> i < length bboxes \<and> i < length scores)"

text \<open>
  The invariant of the loops of \<open>evaluate\<close> on annotation ids: the ids handed out so far
  are \<open>1, 2, \<dots>\<close> in order, and \<open>annot_id\<close> is the next one.
\<close>

definition ids_inv :: "eval_state \<Rightarrow> bool" where
  "ids_inv st \<longleftrightarrow>
     st_annot_id st = 1 + int (length (gt_annotations st)) \<and>
     map ann_id (gt_annotations st) = map (\<lambda>k. 1 + int k) [0..<length (gt_annotations st)]"

section \<open>Properties\<close>

lemma length_column [simp]: "length (column k boxes) = length boxes"
  by (simp add: column_def)

lemma concat4_split4: "concat4 (map f0 bs) (map f1 bs) (map f2 bs) (map f3 bs) =
   map (\<lambda>b. (f0 b, f1 b, f2 b, f3 b)) bs"
  by (induction bs) (simp_all add: concat4_def)

subsection \<open>Helper lemmas\<close>

lemma transpose4_map: "transpose [map f0 bs, map f1 bs, map f2 bs, map f3 bs] =
   map (\<lambda>b. [f0 b, f1 b, f2 b, f3 b]) bs"
  by (induction bs) simp_all

lemma tsub_column: "tsub (column i bs) (column j bs) = map (\<lambda>b. coord i b - coord j b) bs"
  by (induction bs) (simp_all add: tsub_def column_def)


lemma coco_bboxes_xywh:
  "stack_transpose_tolist [column 0 bs, column (Suc 0) bs, tsub (column 2 bs) (column 0 bs),
      tsub (column 3 bs) (column (Suc 0) bs)] = map xywh bs"
proof -
  have "stack_transpose_tolist [column 0 bs, column (Suc 0) bs, tsub (column 2 bs) (column 0 bs),
      tsub (column 3 bs) (column (Suc 0) bs)] = map (\<lambda>b. [coord 0 b, coord (Suc 0) b, coord 2 b - coord 0 b, coord 3 b - coord (Suc 0) b]) bs"
    unfolding tsub_column stack_transpose_tolist_def
    unfolding column_def by (rule transpose4_map)
  also have "\<dots> = map xywh bs"
    by (rule map_cong) (auto simp: xywh_def)
  finally show ?thesis .
qed

lemma for_each_annot_body:
  "\<forall>i\<in>set is. i < length labels \<Longrightarrow>
   for_each (annot_body iid cb areas labels) is (a, anns) =
     Inr (a + int (length is),
          anns @ map2 (\<lambda>k i. \<lparr>ann_id = a + int k, ann_image_id = iid,
                                ann_bbox = cb ! i, ann_iscrowd = 0,
                                ann_area = areas ! i, ann_category_id = labels ! i\<rparr>)
                      [0..<length is] is)"
proof (induction "is" arbitrary: a anns)
  case Nil
  then show ?case by simp
next
  case (Cons i "is")
  have up: "[0..<Suc (length is)] = 0 # map Suc [0..<length is]"
    by (simp add: upt_conv_Cons map_Suc_upt del: upt_Suc)
  have step: "annot_body iid cb areas labels i (a, anns) =
      Inr (a + 1, anns @ [\<lparr>ann_id = a, ann_image_id = iid,
                                ann_bbox = cb ! i, ann_iscrowd = 0,
                                ann_area = areas ! i, ann_category_id = labels ! i\<rparr>])"
    using Cons.prems by (simp add: annot_body_def)
  show ?case using Cons.prems
    by (simp add: step Cons.IH up zip_map1 comp_def case_prod_unfold add.assoc del: upt_Suc)
qed

lemma for_each_annot_body_fail:
  "\<exists>i\<in>set is. \<not> i < length labels \<Longrightarrow>
   for_each (annot_body iid cb areas labels) is (a, anns) = Inl IndexError"
  by (induction "is" arbitrary: a anns) (auto simp: annot_body_def)


lemma zip_same_upt: "map2 f [0..<n] [0..<n] = map (\<lambda>k. f k k) [0..<n]"
  by (simp add: zip_same_conv_map comp_def)

lemma COCO_gt_annot_eq:
  "COCO_gt_annot iid a (h, w) labels bboxes =
     (if length bboxes \<le> length labels
      then Inr (\<lparr>img_id = iid, img_height = h, img_width = w\<rparr>,
                map (\<lambda>k. \<lparr>ann_id = a + int k, ann_image_id = iid,
                            ann_bbox = xywh (bboxes ! k), ann_iscrowd = 0,
                            ann_area = (coord 3 (bboxes ! k) - coord 1 (bboxes ! k)) *
                                       (coord 2 (bboxes ! k) - coord 0 (bboxes ! k)),
                            ann_category_id = labels ! k\<rparr>)
                    [0..<length bboxes])
      else Inl IndexError)"
proof -
  let ?cb = "stack_transpose_tolist [column 0 bboxes, column (Suc 0) bboxes,
               tsub (column 2 bboxes) (column 0 bboxes),
               tsub (column 3 bboxes) (column (Suc 0) bboxes)]"
  let ?areas = "tmul (tsub (column 3 bboxes) (column (Suc 0) bboxes))
                     (tsub (column 2 bboxes) (column 0 bboxes))"
  have cb: "?cb = map xywh bboxes"
    by (rule coco_bboxes_xywh)
  have areas: "?areas = map (\<lambda>b. (coord 3 b - coord (Suc 0) b) * (coord 2 b - coord 0 b)) bboxes"
    by (simp add: tsub_column tmul_def zip_same_conv_map comp_def zip_map_map)
  show ?thesis
  proof (cases "length bboxes \<le> length labels")
    case True
    then have rng: "\<forall>i\<in>set [0..<length bboxes]. i < length labels"
      by auto
    have "map2 (\<lambda>k i. \<lparr>ann_id = a + int k, ann_image_id = iid,
                                ann_bbox = map xywh bboxes ! i, ann_iscrowd = 0,
                                ann_area = map (\<lambda>b. (coord 3 b - coord 1 b) * (coord 2 b - coord 0 b)) bboxes ! i, ann_category_id = labels ! i\<rparr>)
                      [0..<length bboxes] [0..<length bboxes] =
          map (\<lambda>k. \<lparr>ann_id = a + int k, ann_image_id = iid,
                            ann_bbox = xywh (bboxes ! k), ann_iscrowd = 0,
                            ann_area = (coord 3 (bboxes ! k) - coord 1 (bboxes ! k)) *
                                       (coord 2 (bboxes ! k) - coord 0 (bboxes ! k)),
                            ann_category_id = labels ! k\<rparr>)
                    [0..<length bboxes]"
      unfolding zip_same_upt by (rule map_cong) simp_all
    then show ?thesis
      using True for_each_annot_body [OF rng, of iid "map xywh bboxes" _ a "[]"]
      by (simp add: COCO_gt_annot_def Let_def cb areas)
  next
    case False
    then have "\<exists>i\<in>set [0..<length bboxes]. \<not> i < length labels"
      by (auto intro: bexI [of _ "length labels"])
    from for_each_annot_body_fail [OF this] False show ?thesis
      by (simp add: COCO_gt_annot_def Let_def cb areas)
  qed
qed

lemma boolean_mask_labels: "boolean_mask ls (map P ls) = Inr (filter P ls)"
proof -
  have "map fst (filter snd (zip ls (map P ls))) = filter P ls"
    by (induction ls) simp_all
  then show ?thesis by (simp add: boolean_mask_def)
qed

lemma boolean_mask_boxes:
  "boolean_mask bs (map P ls) =
     (if length bs \<noteq> length ls then Inl ValueError
      else Inr (map snd (filter (\<lambda>e. P (fst e)) (zip ls bs))))"
proof (cases "length bs = length ls")
  case True
  then have "map fst (filter snd (zip bs (map P ls))) =
             map snd (filter (\<lambda>e. P (fst e)) (zip ls bs))"
    by (induction bs ls rule: list_induct2) simp_all
  with True show ?thesis by (simp add: boolean_mask_def)
next
  case False
  then show ?thesis by (simp add: boolean_mask_def)
qed

lemma filter_labels_zip:
  "length bs = length ls \<Longrightarrow> filter P ls = map fst (filter (\<lambda>e. P (fst e)) (zip ls bs))"
  by (induction bs ls rule: list_induct2) simp_all

lemma for_each_invariant:
  assumes "for_each body xs s = Inr s'" and "I s"
    and "\<And>x t t'. x \<in> set xs \<Longrightarrow> I t \<Longrightarrow> body x t = Inr t' \<Longrightarrow> I t'"
  shows "I s'"
  using assms
proof (induction xs arbitrary: s)
  case Nil
  then show ?case by simp
next
  case (Cons x xs)
  from Cons.prems(1) obtain t where t: "body x s = Inr t" and rest: "for_each body xs t = Inr s'"
    by (auto split: sum.splits)
  have "I t" using Cons.prems(3) [of x s t] Cons.prems(2) t by simp
  show ?case
  proof (rule Cons.IH [OF rest \<open>I t\<close>])
    fix y u u' assume "y \<in> set xs" "I u" "body y u = Inr u'"
    then show "I u'" using Cons.prems(3) [of y u u'] by simp
  qed
qed

section \<open>Claims\<close>

lemma scale_boxes_eq:
  "scale_boxes labels boxes (h, w) =
     (labels, map (\<lambda>(x1, y1, x2, y2).
                     (x1 * of_int w, y1 * of_int h, x2 * of_int w, y2 * of_int h)) boxes)"
proof -
  have "concat4 (tscale (column 0 boxes) w) (tscale (column 1 boxes) h)
                (tscale (column 2 boxes) w) (tscale (column 3 boxes) h) =
        map (\<lambda>b. (coord 0 b * of_int w, coord 1 b * of_int h,
                   coord 2 b * of_int w, coord 3 b * of_int h)) boxes"
    using concat4_split4 [of "\<lambda>b. coord 0 b * of_int w" boxes "\<lambda>b. coord 1 b * of_int h"
                             "\<lambda>b. coord 2 b * of_int w" "\<lambda>b. coord 3 b * of_int h"]
    by (simp add: tscale_def column_def comp_def)
  also have "\<dots> = map (\<lambda>(x1, y1, x2, y2).
                     (x1 * of_int w, y1 * of_int h, x2 * of_int w, y2 * of_int h)) boxes"
    by (rule map_cong) auto
  finally show ?thesis
    by (simp add: scale_boxes_def split4_def)
qed

text \<open>
  C7. \<open>_scale_boxes\<close> multiplies the x1 and x2 coordinate of every box by the target width
  and the y1 and y2 coordinate by the target height, and returns the labels unchanged.
\<close>

theorem scale_boxes_componentwise:
  "scale_boxes labels boxes (h, w) =
     (labels, map (\<lambda>(x1, y1, x2, y2).
                     (x1 * of_int w, y1 * of_int h, x2 * of_int w, y2 * of_int h)) boxes)"
  by (rule scale_boxes_eq)

lemma zip3_middle:
  "map (\<lambda>(l, b, s). b) (zip ls (zip cb ss)) = take (min (length ls) (length ss)) cb"
proof (induction ls arbitrary: cb ss)
  case Nil
  then show ?case by simp
next
  case (Cons l ls)
  show ?case
  proof (cases cb)
    case Nil
    then show ?thesis by simp
  next
    case cb: (Cons b cb')
    show ?thesis
    proof (cases ss)
      case Nil
      then show ?thesis by simp
    next
      case (Cons s ss')
      with cb Cons.IH [of cb' ss'] show ?thesis by simp
    qed
  qed
qed

lemma COCO_result_bbox:
  "map res_bbox (COCO_result iid ls bs ss) = take (min (length ls) (length ss)) (map xywh bs)"
proof -
  have "map res_bbox (COCO_result iid ls bs ss) =
        map (\<lambda>(l, b, s). b) (zip ls (zip (map xywh bs) ss))"
    by (simp add: COCO_result_def coco_bboxes_xywh case_prod_unfold comp_def)
  then show ?thesis by (simp add: zip3_middle)
qed

lemma COCO_gt_annot_bbox:
  assumes "COCO_gt_annot iid a (h, w) ls bs = Inr (im, annots)"
  shows "map ann_bbox annots = map xywh bs"
proof -
  from assms have "annots = map (\<lambda>k. \<lparr>ann_id = a + int k, ann_image_id = iid,
                            ann_bbox = xywh (bs ! k), ann_iscrowd = 0,
                            ann_area = (coord 3 (bs ! k) - coord 1 (bs ! k)) *
                                       (coord 2 (bs ! k) - coord 0 (bs ! k)),
                            ann_category_id = ls ! k\<rparr>) [0..<length bs]"
    by (simp add: COCO_gt_annot_eq split: if_splits)
  then have "map ann_bbox annots = map (\<lambda>k. xywh (bs ! k)) [0..<length bs]"
    by (simp add: comp_def)
  also have "\<dots> = map xywh bs"
    by (rule nth_equalityI) simp_all
  finally show ?thesis .
qed

text \<open>
  C2. Every detection record built by \<open>_COCO_result\<close> and every ground-truth record built
  by \<open>_COCO_gt_annot\<close> carries the box \<open>(x1, y1, x2, y2)\<close> it was given as
  \<open>[x1, y1, x2 - x1, y2 - y1]\<close>. \<open>_COCO_result\<close> emits one record per position present in
  labels, boxes and scores alike; \<open>_COCO_gt_annot\<close> returns, with one record per box, as soon
  as there is a label for every box.
\<close>

theorem coco_bbox_conversion:
  "map res_bbox (COCO_result image_id labels bboxes scores) =
     take (min (length labels) (length scores)) (map xywh bboxes) \<and>
   (length bboxes \<le> length labels \<longrightarrow>
     (\<exists>image annots. COCO_gt_annot image_id annot_id (h, w) labels bboxes = Inr (image, annots)
        \<and> map ann_bbox annots = map xywh bboxes))"
proof (intro conjI impI)
  show "map res_bbox (COCO_result image_id labels bboxes scores) =
     take (min (length labels) (length scores)) (map xywh bboxes)"
    by (rule COCO_result_bbox)
next
  assume "length bboxes \<le> length labels"
  then obtain image annots where
    r: "COCO_gt_annot image_id annot_id (h, w) labels bboxes = Inr (image, annots)"
    by (simp add: COCO_gt_annot_eq)
  from COCO_gt_annot_bbox [OF r] r
  show "\<exists>image annots. COCO_gt_annot image_id annot_id (h, w) labels bboxes = Inr (image, annots)
        \<and> map ann_bbox annots = map xywh bboxes"
    by blast
qed

theorem coco_bbox_conversion_witness:
  "map res_bbox (COCO_result 1 [0, 0] [(1, 2, 4, 8), (0, 0, 5, 5)] [1 / 2, 1 / 4]) =
     [[1, 2, 3, 6], [0, 0, 5, 5]] \<and>
   length [(1, 2, 4, 8) :: box] \<le> length [0 :: int] \<and>
   (\<exists>image annots. COCO_gt_annot 1 1 (10, 20) [0] [(1, 2, 4, 8)] = Inr (image, annots)
        \<and> map ann_bbox annots = [[1, 2, 3, 6]])"
  using coco_bbox_conversion [where image_id = 1 and labels = "[0, 0]"
          and bboxes = "[(1, 2, 4, 8), (0, 0, 5, 5)]" and scores = "[1 / 2, 1 / 4]"]
        coco_bbox_conversion [where image_id = 1 and labels = "[0]" and bboxes = "[(1, 2, 4, 8)]"
          and annot_id = 1 and h = 10 and w = 20]
  by (simp add: xywh_def)

subsection \<open>The evaluation loop\<close>

lemma COCO_gt_annot_entries:
  "COCO_gt_annot iid a (h, w) (map fst es) (map snd es) =
     Inr (\<lparr>img_id = iid, img_height = h, img_width = w\<rparr>, annots_of iid a es)"
  by (simp add: COCO_gt_annot_eq annots_of_def)


lemma eval_image_ok:
  assumes "image_ok labels bbs (bboxes, categories, scores) i"
  shows "eval_image (h, w) labels bbs (bboxes, categories, scores) i st =
     Inr \<lparr>gt_images = gt_images st @ [\<lparr>img_id = st_image_id st, img_height = h, img_width = w\<rparr>],
          gt_annotations = gt_annotations st @
             annots_of (st_image_id st) (st_annot_id st) (real_entries (labels ! i) (bbs ! i)),
          results_coco = results_coco st @
             (if length (categories ! i) > 0
              then COCO_result (st_image_id st) (categories ! i) (bboxes ! i) (scores ! i)
              else []),
          st_image_id = st_image_id st + 1,
          st_annot_id = st_annot_id st + int (length (real_entries (labels ! i) (bbs ! i)))\<rparr>"
proof -
  let ?es = "real_entries (labels ! i) (bbs ! i)"
  from assms have len: "length (bbs ! i) = length (labels ! i)"
    by (simp add: image_ok_def)
  have m1: "boolean_mask (labels ! i) (map (\<lambda>l. l \<noteq> - 1) (labels ! i)) = Inr (map fst ?es)"
    using filter_labels_zip [OF len, of "\<lambda>l. l \<noteq> - 1"]
    by (simp add: boolean_mask_labels real_entries_def)
  have m2: "boolean_mask (bbs ! i) (map (\<lambda>l. l \<noteq> - 1) (labels ! i)) = Inr (map snd ?es)"
    using len by (simp add: boolean_mask_boxes real_entries_def)
  have la: "length (annots_of (st_image_id st) (st_annot_id st) ?es) = length ?es"
    by (simp add: annots_of_def)
  show ?thesis
    using assms
    by (simp add: eval_image_def image_ok_def Let_def m1 m2 COCO_gt_annot_entries la)
qed

lemma eval_image_fail:
  assumes "\<not> image_ok labels bbs (bboxes, categories, scores) i"
  shows "\<exists>e. eval_image (h, w) labels bbs (bboxes, categories, scores) i st = Inl e"
proof (cases "i < length labels \<and> i < length bbs")
  case False
  then show ?thesis by (auto simp: eval_image_def)
next
  case True
  show ?thesis
  proof (cases "length (bbs ! i) = length (labels ! i)")
    case False
    with True show ?thesis
      by (simp add: eval_image_def Let_def boolean_mask_labels boolean_mask_boxes)
  next
    case len: True
    let ?es = "real_entries (labels ! i) (bbs ! i)"
    have m1: "boolean_mask (labels ! i) (map (\<lambda>l. l \<noteq> - 1) (labels ! i)) = Inr (map fst ?es)"
      using filter_labels_zip [OF len, of "\<lambda>l. l \<noteq> - 1"]
      by (simp add: boolean_mask_labels real_entries_def)
    have m2: "boolean_mask (bbs ! i) (map (\<lambda>l. l \<noteq> - 1) (labels ! i)) = Inr (map snd ?es)"
      using len by (simp add: boolean_mask_boxes real_entries_def)
    from assms True len
    have "length categories \<le> i \<or> length bboxes \<le> i \<or> length scores \<le> i"
      by (auto simp: image_ok_def)
    with True show ?thesis
      by (simp add: eval_image_def Let_def m1 m2 COCO_gt_annot_entries)
  qed
qed

lemma eval_image_Inr:
  assumes "eval_image (h, w) labels bbs (bboxes, categories, scores) i st = Inr st'"
  shows "image_ok labels bbs (bboxes, categories, scores) i"
    and "st' = \<lparr>gt_images = gt_images st @ [\<lparr>img_id = st_image_id st, img_height = h, img_width = w\<rparr>],
          gt_annotations = gt_annotations st @
             annots_of (st_image_id st) (st_annot_id st) (real_entries (labels ! i) (bbs ! i)),
          results_coco = results_coco st @
             (if length (categories ! i) > 0
              then COCO_result (st_image_id st) (categories ! i) (bboxes ! i) (scores ! i)
              else []),
          st_image_id = st_image_id st + 1,
          st_annot_id = st_annot_id st + int (length (real_entries (labels ! i) (bbs ! i)))\<rparr>"
proof -
  show ok: "image_ok labels bbs (bboxes, categories, scores) i"
    using assms eval_image_fail [of labels bbs bboxes categories scores i h w st] by auto
  from eval_image_ok [OF ok, of h w st] assms
  show "st' = \<lparr>gt_images = gt_images st @ [\<lparr>img_id = st_image_id st, img_height = h, img_width = w\<rparr>],
          gt_annotations = gt_annotations st @
             annots_of (st_image_id st) (st_annot_id st) (real_entries (labels ! i) (bbs ! i)),
          results_coco = results_coco st @
             (if length (categories ! i) > 0
              then COCO_result (st_image_id st) (categories ! i) (bboxes ! i) (scores ! i)
              else []),
          st_image_id = st_image_id st + 1,
          st_annot_id = st_annot_id st + int (length (real_entries (labels ! i) (bbs ! i)))\<rparr>"
    by simp
qed

lemma evaluate_invariant:
  assumes ev: "evaluate model dataset c2i = Inr (gt, res)"
    and init: "I \<lparr>gt_images = [], gt_annotations = [], results_coco = [],
                 st_image_id = 1, st_annot_id = 1\<rparr>"
    and step: "\<And>images labels bbs preds i st st'.
        (images, (labels, bbs)) \<in> set (fst dataset) \<Longrightarrow> model images = Inr preds \<Longrightarrow> I st \<Longrightarrow>
        eval_image (t_height images, t_width images) labels bbs preds i st = Inr st' \<Longrightarrow> I st'"
  shows "\<exists>st. I st \<and> ds_annotations gt = gt_annotations st \<and> ds_images gt = gt_images st
              \<and> res = results_coco st"
proof -
  from ev obtain st where
    run: "for_each (eval_batch model) (fst dataset)
            \<lparr>gt_images = [], gt_annotations = [], results_coco = [],
             st_image_id = 1, st_annot_id = 1\<rparr> = Inr st"
    and gt: "gt = \<lparr>ds_images = gt_images st, ds_annotations = gt_annotations st,
                   ds_categories = map (\<lambda>(n, i). \<lparr>cat_supercategory = ''instance'', cat_id = i,
                                       cat_name = n\<rparr>) c2i\<rparr>"
    and res: "res = results_coco st"
    by (auto simp: evaluate_def Let_def split: sum.splits option.splits)
  have "I st"
  proof (rule for_each_invariant [where I = I, OF run init])
    fix batch t t'
    assume b: "batch \<in> set (fst dataset)" and t: "I t" and r: "eval_batch model batch t = Inr t'"
    obtain images labels bbs where batch: "batch = (images, (labels, bbs))"
      by (cases batch) auto
    from r batch obtain bboxes categories scores where
      m: "model images = Inr (bboxes, categories, scores)"
      and l: "for_each (eval_image (t_height images, t_width images) labels bbs
                                (bboxes, categories, scores)) [0..<length bboxes] t = Inr t'"
      by (auto simp: eval_batch_def split: sum.splits)
    show "I t'"
    proof (rule for_each_invariant [where I = I, OF l t])
      fix i u u'
      assume "I u" and
        "eval_image (t_height images, t_width images) labels bbs
           (bboxes, categories, scores) i u = Inr u'"
      then show "I u'" using step [of images labels bbs "(bboxes, categories, scores)" u i u'] b batch m
        by simp
    qed
  qed
  with gt res show ?thesis by auto
qed


lemma annots_of_ids: "map ann_id (annots_of iid a es) = map (\<lambda>k. a + int k) [0..<length es]"
  by (simp add: annots_of_def comp_def)

lemma length_annots_of [simp]: "length (annots_of iid a es) = length es"
  by (simp add: annots_of_def)

lemma ids_append:
  "map (\<lambda>k. 1 + int k) [0..<n] @ map (\<lambda>k. 1 + int n + int k) [0..<m] =
   map (\<lambda>k. 1 + int k) [0..<n + m]"
proof -
  have "map (\<lambda>k. 1 + int n + int k) [0..<m] = map (\<lambda>k. 1 + int k) (map (\<lambda>k. k + n) [0..<m])"
    by (simp add: comp_def add.commute add.left_commute)
  also have "\<dots> = map (\<lambda>k. 1 + int k) [n..<n + m]"
    by (simp only: map_add_upt add.commute [of m n])
  finally show ?thesis
    by (simp add: upt_add_eq_append [of 0 n m, simplified])
qed

lemma ids_inv_step:
  assumes "ids_inv st" and "eval_image (h, w) labels bbs (bboxes, categories, scores) i st = Inr st'"
  shows "ids_inv st'"
proof -
  let ?es = "real_entries (labels ! i) (bbs ! i)"
  note st' = eval_image_Inr(2) [OF assms(2)]
  have a: "gt_annotations st' = gt_annotations st @ annots_of (st_image_id st) (st_annot_id st) ?es"
    and b: "st_annot_id st' = st_annot_id st + int (length ?es)"
    by (simp_all add: st')
  from assms(1) have c: "st_annot_id st = 1 + int (length (gt_annotations st))"
    and d: "map ann_id (gt_annotations st) = map (\<lambda>k. 1 + int k) [0..<length (gt_annotations st)]"
    by (simp_all add: ids_inv_def)
  have "map ann_id (gt_annotations st') =
        map (\<lambda>k. 1 + int k) [0..<length (gt_annotations st)] @
        map (\<lambda>k. 1 + int (length (gt_annotations st)) + int k) [0..<length ?es]"
    using d by (simp add: a annots_of_ids c)
  also have "\<dots> = map (\<lambda>k. 1 + int k) [0..<length (gt_annotations st) + length ?es]"
    by (rule ids_append)
  finally show ?thesis
    by (simp add: ids_inv_def a b c)
qed

lemma evaluate_ids:
  assumes "evaluate model dataset c2i = Inr (gt, res)"
  shows "map ann_id (ds_annotations gt) = map (\<lambda>k. 1 + int k) [0..<length (ds_annotations gt)]"
proof -
  have "\<exists>st. ids_inv st \<and> ds_annotations gt = gt_annotations st \<and> ds_images gt = gt_images st
              \<and> res = results_coco st"
  proof (rule evaluate_invariant [where I = ids_inv, OF assms])
    show "ids_inv \<lparr>gt_images = [], gt_annotations = [], results_coco = [],
                 st_image_id = 1, st_annot_id = 1\<rparr>"
      by (simp add: ids_inv_def)
  next
    fix images labels bbs preds i st st'
    assume "ids_inv st"
      and "eval_image (t_height images, t_width images) labels bbs preds i st = Inr st'"
    then show "ids_inv st'"
      by (cases preds) (auto intro: ids_inv_step)
  qed
  then show ?thesis by (auto simp: ids_inv_def)
qed

lemma distinct_ids: "distinct (map (\<lambda>k. 1 + int k) [0..<n])"
  by (simp add: distinct_map inj_on_def)

lemma annots_of_entry:
  assumes "a \<in> set (annots_of iid n es)"
  shows "\<exists>e\<in>set es. ann_category_id a = fst e \<and> ann_bbox a = xywh (snd e)"
proof -
  from assms obtain k where "k < length es" and
    "ann_category_id a = fst (es ! k)" and "ann_bbox a = xywh (snd (es ! k))"
    by (auto simp: annots_of_def)
  then show ?thesis by (auto intro: bexI [of _ "es ! k"])
qed

lemma real_entries_label: "e \<in> set (real_entries ls bs) \<Longrightarrow> fst e \<noteq> - 1"
  by (simp add: real_entries_def)

text \<open>
  C6. When \<open>evaluate\<close> has run over the dataset, no annotation of \<open>gt_coco\<close> has the
  category \<open>-1\<close>, and each one is the record of a ground-truth entry of some image whose
  label is not the padding label: its category is that label and its bbox is that box.
  The padding entries of a batch were masked out before the records were built.
\<close>

theorem no_padding_in_gt_coco:
  assumes "evaluate model dataset class2idx = Inr (gt, res)"
  shows "\<forall>a\<in>set (ds_annotations gt).
           ann_category_id a \<noteq> - 1 \<and>
           (\<exists>(images, (labels, bbs))\<in>set (fst dataset). \<exists>i<length labels.
              \<exists>e\<in>set (real_entries (labels ! i) (bbs ! i)).
                 ann_category_id a = fst e \<and> ann_bbox a = xywh (snd e))"
proof -
  let ?P = "\<lambda>a. ann_category_id a \<noteq> - 1 \<and>
           (\<exists>(images, (labels, bbs))\<in>set (fst dataset). \<exists>i<length labels.
              \<exists>e\<in>set (real_entries (labels ! i) (bbs ! i)).
                 ann_category_id a = fst e \<and> ann_bbox a = xywh (snd e))"
  define I :: "eval_state \<Rightarrow> bool" where "I = (\<lambda>st. \<forall>a\<in>set (gt_annotations st). ?P a)"
  have "\<exists>st. I st \<and> ds_annotations gt = gt_annotations st \<and> ds_images gt = gt_images st
              \<and> res = results_coco st"
  proof (rule evaluate_invariant [where I = I, OF assms])
    show "I \<lparr>gt_images = [], gt_annotations = [], results_coco = [],
                 st_image_id = 1, st_annot_id = 1\<rparr>"
      by (simp add: I_def)
  next
    fix images labels bbs preds i st st'
    assume mem: "(images, (labels, bbs)) \<in> set (fst dataset)" and I: "I st"
      and ev: "eval_image (t_height images, t_width images) labels bbs preds i st = Inr st'"
    obtain bboxes categories scores where preds: "preds = (bboxes, categories, scores)"
      by (cases preds) auto
    note ok = eval_image_Inr(1) [OF ev [unfolded preds]]
    note st' = eval_image_Inr(2) [OF ev [unfolded preds]]
    from ok have i: "i < length labels" by (simp add: image_ok_def)
    have new: "?P a"
      if "a \<in> set (annots_of (st_image_id st) (st_annot_id st) (real_entries (labels ! i) (bbs ! i)))"
      for a
    proof -
      from annots_of_entry [OF that] obtain e where
        e: "e \<in> set (real_entries (labels ! i) (bbs ! i))"
        and c: "ann_category_id a = fst e" and b: "ann_bbox a = xywh (snd e)"
        by blast
      from real_entries_label [OF e] c have "ann_category_id a \<noteq> - 1" by simp
      moreover have "\<exists>(images, (labels, bbs))\<in>set (fst dataset). \<exists>i<length labels.
              \<exists>e\<in>set (real_entries (labels ! i) (bbs ! i)).
                 ann_category_id a = fst e \<and> ann_bbox a = xywh (snd e)"
        using mem i e c b by (intro bexI [of _ "(images, (labels, bbs))"]) auto
      ultimately show ?thesis by simp
    qed
    have "gt_annotations st' = gt_annotations st @
             annots_of (st_image_id st) (st_annot_id st) (real_entries (labels ! i) (bbs ! i))"
      by (simp add: st')
    with I new show "I st'" unfolding I_def by auto
  qed
  then show ?thesis unfolding I_def by auto
qed

theorem no_padding_in_gt_coco_witness:
  "\<exists>gt res. evaluate (\<lambda>im. Inr ([[(1, 2, 4, 8)], []], [[0], []], [[1 / 2], []]))
       ([(\<lparr>t_height = 10, t_width = 20, t_data = [(), ()]\<rparr>,
          ([[0, - 1], [0, 0]], [[(1, 1, 3, 4), (0, 0, 0, 0)], [(1, 2, 3, 4), (5, 5, 6, 7)]]))],
        None)
       [(''bin'', 0)] = Inr (gt, res) \<and>
     map ann_bbox (ds_annotations gt) = [[1, 1, 2, 3], [1, 2, 2, 2], [5, 5, 1, 2]] \<and>
     (\<forall>a\<in>set (ds_annotations gt). ann_category_id a \<noteq> - 1)"
proof -
  let ?model = "\<lambda>im :: unit image_tensor.
     (Inr ([[(1, 2, 4, 8)], []], [[0], []], [[1 / 2], []]) :: error + detections)"
  let ?ds = "([(\<lparr>t_height = 10, t_width = 20, t_data = [(), ()]\<rparr>,
         ([[0, - 1], [0, 0]], [[(1, 1, 3, 4), (0, 0, 0, 0)], [(1, 2, 3, 4), (5, 5, 6, 7)]]))],
       None :: error option)"
  obtain gt res where e: "evaluate ?model ?ds [(''bin'', 0)] = Inr (gt, res)"
    and b: "map ann_bbox (ds_annotations gt) = [[1, 1, 2, 3], [1, 2, 2, 2], [5, 5, 1, 2]]"
    by (simp add: evaluate_def eval_batch_def eval_image_ok image_ok_def upt_conv_Cons
        annots_of_def real_entries_def xywh_def)
  from no_padding_in_gt_coco [OF e] have "\<forall>a\<in>set (ds_annotations gt). ann_category_id a \<noteq> - 1"
    by blast
  with e b show ?thesis
    by (intro exI [of _ gt] exI [of _ res]) simp
qed

text \<open>
  C8. For a well-formed image whose list of predicted labels is empty, the loop body of
  \<open>evaluate\<close> returns without an error, adds no record to \<open>results_coco\<close>, moves
  \<open>image_id\<close> to the next image, and the loop goes on with the remaining images.
\<close>

theorem empty_predictions_skipped:
  assumes "image_ok labels bbs (bboxes, categories, scores) i" and "categories ! i = []"
  shows "\<exists>st'. eval_image (h, w) labels bbs (bboxes, categories, scores) i st = Inr st' \<and>
               results_coco st' = results_coco st \<and>
               st_image_id st' = st_image_id st + 1 \<and>
               for_each (eval_image (h, w) labels bbs (bboxes, categories, scores)) (i # rest) st =
               for_each (eval_image (h, w) labels bbs (bboxes, categories, scores)) rest st'"
  using assms(2) by (simp add: eval_image_ok [OF assms(1)])

theorem empty_predictions_skipped_witness:
  "image_ok [[0, - 1], [0, 0]] [[(1, 1, 3, 4), (0, 0, 0, 0)], [(1, 2, 3, 4), (5, 5, 6, 7)]]
      ([[(1, 2, 4, 8)], []], [[0], []], [[1 / 2], []]) 1 \<and>
   ([[0], []] :: int list list) ! 1 = [] \<and>
   (\<exists>st'. eval_image (10, 20) [[0, - 1], [0, 0]]
             [[(1, 1, 3, 4), (0, 0, 0, 0)], [(1, 2, 3, 4), (5, 5, 6, 7)]]
             ([[(1, 2, 4, 8)], []], [[0], []], [[1 / 2], []]) 1
             \<lparr>gt_images = [], gt_annotations = [], results_coco = [],
              st_image_id = 1, st_annot_id = 1\<rparr> = Inr st' \<and>
          results_coco st' = [] \<and> st_image_id st' = 2)"
proof -
  have ok: "image_ok [[0, - 1], [0, 0]] [[(1, 1, 3, 4), (0, 0, 0, 0)], [(1, 2, 3, 4), (5, 5, 6, 7)]]
      ([[(1, 2, 4, 8)], []], [[0], []], [[1 / 2], []]) 1"
    by (simp add: image_ok_def)
  have em: "([[0], []] :: int list list) ! 1 = []" by simp
  from empty_predictions_skipped [OF ok em, of 10 20
      "\<lparr>gt_images = [], gt_annotations = [], results_coco = [], st_image_id = 1, st_annot_id = 1\<rparr>" "[]"]
  show ?thesis using ok by auto
qed

text \<open>
  C9. \<open>_COCO_gt_annot\<close> numbers its records consecutively from the \<open>annot_id\<close> it is
  given, and over a whole run of \<open>evaluate\<close> the annotation ids are \<open>1, 2, \<dots>, n\<close> in
  order, so every id occurs exactly once.
\<close>

theorem annotation_ids_unique:
  "(COCO_gt_annot image_id annot_id (h, w) labels bboxes = Inr (im, annots) \<longrightarrow>
      map ann_id annots = map (\<lambda>k. annot_id + int k) [0..<length annots]) \<and>
   (evaluate model dataset class2idx = Inr (gt, res) \<longrightarrow>
      map ann_id (ds_annotations gt) = map (\<lambda>k. 1 + int k) [0..<length (ds_annotations gt)] \<and>
      distinct (map ann_id (ds_annotations gt)))"
proof (intro conjI impI)
  assume "COCO_gt_annot image_id annot_id (h, w) labels bboxes = Inr (im, annots)"
  then show "map ann_id annots = map (\<lambda>k. annot_id + int k) [0..<length annots]"
    by (auto simp: COCO_gt_annot_eq comp_def split: if_splits)
next
  assume e: "evaluate model dataset class2idx = Inr (gt, res)"
  show "map ann_id (ds_annotations gt) = map (\<lambda>k. 1 + int k) [0..<length (ds_annotations gt)]"
    by (rule evaluate_ids [OF e])
  then show "distinct (map ann_id (ds_annotations gt))"
    using distinct_ids [of "length (ds_annotations gt)"] by simp
qed

theorem annotation_ids_unique_witness:
  "\<exists>im annots gt res.
     COCO_gt_annot 7 5 (10, 20) [0, 0] [(1, 1, 3, 4), (5, 5, 6, 7)] = Inr (im, annots) \<and>
     map ann_id annots = [5, 6] \<and>
     evaluate (\<lambda>im. Inr ([[(1, 2, 4, 8)], []], [[0], []], [[1 / 2], []]))
       ([(\<lparr>t_height = 10, t_width = 20, t_data = [(), ()]\<rparr>,
          ([[0, - 1], [0, 0]], [[(1, 1, 3, 4), (0, 0, 0, 0)], [(1, 2, 3, 4), (5, 5, 6, 7)]])),
         (\<lparr>t_height = 10, t_width = 20, t_data = [(), ()]\<rparr>,
          ([[0], [- 1]], [[(2, 2, 3, 3)], [(0, 0, 0, 0)]]))],
        None)
       [(''bin'', 0)] = Inr (gt, res) \<and>
     map ann_id (ds_annotations gt) = [1, 2, 3, 4] \<and> distinct (map ann_id (ds_annotations gt))"
proof -
  let ?model = "\<lambda>im :: unit image_tensor.
     (Inr ([[(1, 2, 4, 8)], []], [[0], []], [[1 / 2], []]) :: error + detections)"
  let ?ds = "([(\<lparr>t_height = 10, t_width = 20, t_data = [(), ()]\<rparr>,
         ([[0, - 1], [0, 0]], [[(1, 1, 3, 4), (0, 0, 0, 0)], [(1, 2, 3, 4), (5, 5, 6, 7)]])),
        (\<lparr>t_height = 10, t_width = 20, t_data = [(), ()]\<rparr>,
         ([[0], [- 1]], [[(2, 2, 3, 3)], [(0, 0, 0, 0)]]))],
       None :: error option)"
  obtain im annots where
    a: "COCO_gt_annot 7 5 (10, 20) [0, 0] [(1, 1, 3, 4), (5, 5, 6, 7)] = Inr (im, annots)"
    and la: "length annots = 2"
    by (simp add: COCO_gt_annot_eq)
  obtain gt res where e: "evaluate ?model ?ds [(''bin'', 0)] = Inr (gt, res)"
    and l: "length (ds_annotations gt) = 4"
    by (simp add: evaluate_def eval_batch_def eval_image_ok image_ok_def upt_conv_Cons
        annots_of_def real_entries_def)
  from annotation_ids_unique [of 7 5 10 20 "[0, 0]" "[(1, 1, 3, 4), (5, 5, 6, 7)]" im annots
      ?model ?ds "[(''bin'', 0)]" gt res] a e la l
  have "map ann_id annots = [5, 6]" and "map ann_id (ds_annotations gt) = [1, 2, 3, 4]"
    and "distinct (map ann_id (ds_annotations gt))"
    by (simp_all add: upt_conv_Cons)
  with a e show ?thesis
    by (intro exI [of _ im] exI [of _ annots] exI [of _ gt] exI [of _ res]) simp
qed

subsection \<open>Reading annotations\<close>

lemma store_label_pair: "store_label (i, l) d = d(l \<mapsto> int i)"
  by (simp add: store_label_def)

lemma label_fold_other:
  "l \<notin> set names \<Longrightarrow> fold store_label (enumerate n names) d l = d l"
  by (induction names arbitrary: n d) (auto simp: store_label_pair)

lemma label_fold_nth:
  "distinct names \<Longrightarrow> i < length names \<Longrightarrow>
   fold store_label (enumerate n names) d (names ! i) = Some (int (n + i))"
proof (induction names arbitrary: n d i)
  case Nil
  then show ?case by simp
next
  case (Cons x xs)
  have e1: "fold store_label (enumerate n (x # xs)) d =
            fold store_label (enumerate (Suc n) xs) (d(x \<mapsto> int n))"
    by (simp add: store_label_pair)
  show ?case
  proof (cases i)
    case 0
    from Cons.prems have "x \<notin> set xs" by simp
    then have "fold store_label (enumerate (Suc n) xs) (d(x \<mapsto> int n)) x = (d(x \<mapsto> int n)) x"
      by (rule label_fold_other)
    also have "\<dots> = Some (int (n + i))" using 0 by simp
    finally show ?thesis unfolding e1 using 0 by simp
  next
    case (Suc j)
    with Cons.prems have "distinct xs" and "j < length xs" by simp_all
    then have "fold store_label (enumerate (Suc n) xs) (d(x \<mapsto> int n)) (xs ! j) =
               Some (int (Suc n + j))"
      by (rule Cons.IH)
    moreover have "(x # xs) ! i = xs ! j" and "int (n + i) = int (Suc n + j)"
      using Suc by simp_all
    ultimately show ?thesis unfolding e1 by (simp only:)
  qed
qed

lemma label_fold_range:
  "fold store_label (enumerate n names) d l = Some k \<Longrightarrow>
   d l = Some k \<or> (int n \<le> k \<and> k < int (n + length names))"
proof (induction names arbitrary: n d)
  case Nil
  then show ?case by simp
next
  case (Cons x xs)
  from Cons.prems have "fold store_label (enumerate (Suc n) xs) (d(x \<mapsto> int n)) l = Some k"
    by (simp add: store_label_pair)
  from Cons.IH [OF this] show ?case
    by (auto split: if_splits)
qed

lemma label_dict_nth:
  "distinct names \<Longrightarrow> i < length names \<Longrightarrow> label_dict names (names ! i) = Some (int i)"
  using label_fold_nth [of names i 0 Map.empty] by (simp add: label_dict_def)

lemma label_dict_range:
  "label_dict names l = Some k \<Longrightarrow> 0 \<le> k \<and> k < int (length names)"
  using label_fold_range [of 0 names Map.empty l k] by (simp add: label_dict_def)

lemma read_object_step:
  "read_object b (bbs, labels) =
     (case LABEL_2_IDX (obj_name b) of
        None \<Rightarrow> Inl KeyError
      | Some l \<Rightarrow> Inr (bbs @ [(obj_xmin b, obj_ymin b, obj_xmax b, obj_ymax b)], labels @ [l]))"
  by (simp add: read_object_def)

lemma for_each_read_object:
  "for_each read_object objs (bbs, labels) = Inr (bbs', labels') \<Longrightarrow>
   map Some labels' = map Some labels @ map (\<lambda>b. LABEL_2_IDX (obj_name b)) objs \<and>
   bbs' = bbs @ map (\<lambda>b. (obj_xmin b, obj_ymin b, obj_xmax b, obj_ymax b)) objs"
proof (induction objs arbitrary: bbs labels)
  case Nil
  then show ?case by simp
next
  case (Cons b objs)
  from Cons.prems obtain l where l: "LABEL_2_IDX (obj_name b) = Some l"
    and rest: "for_each read_object objs
                 (bbs @ [(obj_xmin b, obj_ymin b, obj_xmax b, obj_ymax b)], labels @ [l]) =
               Inr (bbs', labels')"
    by (cases "LABEL_2_IDX (obj_name b)") (simp_all add: read_object_step)
  from Cons.IH [OF rest] l show ?case by simp
qed

lemma for_each_read_object_ok:
  "\<forall>b\<in>set objs. LABEL_2_IDX (obj_name b) \<noteq> None \<Longrightarrow>
   \<exists>bbs' labels'. for_each read_object objs (bbs, labels) = Inr (bbs', labels')"
proof (induction objs arbitrary: bbs labels)
  case Nil
  then show ?case by simp
next
  case (Cons b objs)
  then obtain l where l: "LABEL_2_IDX (obj_name b) = Some l" by auto
  have "read_object b (bbs, labels) =
        Inr (bbs @ [(obj_xmin b, obj_ymin b, obj_xmax b, obj_ymax b)], labels @ [l])"
    by (simp add: read_object_step l)
  with Cons show ?case by simp
qed

lemma read_voc_annot_Inr:
  assumes "read_voc_annot annot = Inr (labels, bbs)"
  shows "map Some labels = map (\<lambda>b. LABEL_2_IDX (obj_name b)) (objects annot)"
    and "bbs = normalize_bndboxes
                 (map (\<lambda>b. (obj_xmin b, obj_ymin b, obj_xmax b, obj_ymax b)) (objects annot))
                 (size_height annot, size_width annot)"
proof -
  from assms obtain ibs where
    run: "for_each read_object (objects annot) ([], []) = Inr (ibs, labels)"
    and b: "bbs = normalize_bndboxes ibs (size_height annot, size_width annot)"
    by (auto simp: read_voc_annot_def Let_def split: sum.splits)
  from for_each_read_object [OF run] b
  show "map Some labels = map (\<lambda>b. LABEL_2_IDX (obj_name b)) (objects annot)"
    and "bbs = normalize_bndboxes
                 (map (\<lambda>b. (obj_xmin b, obj_ymin b, obj_xmax b, obj_ymax b)) (objects annot))
                 (size_height annot, size_width annot)"
    by simp_all
qed

lemma read_voc_annot_lengths:
  assumes "read_voc_annot annot = Inr (labels, bbs)"
  shows "length labels = length (objects annot)" and "length bbs = length (objects annot)"
proof -
  from read_voc_annot_Inr(1) [OF assms]
  have "length (map Some labels) = length (map (\<lambda>b. LABEL_2_IDX (obj_name b)) (objects annot))"
    by simp
  then show "length labels = length (objects annot)" by simp
  show "length bbs = length (objects annot)"
    by (simp add: read_voc_annot_Inr(2) [OF assms] normalize_bndboxes_def)
qed

text \<open>
  C10. \<open>LABEL_2_IDX\<close> is the positional inverse of \<open>IDX_2_LABEL\<close>: the name at position
  \<open>i\<close> is mapped to \<open>i\<close>. \<open>_read_voc_annot\<close> labels every object through this table, so
  every label it returns lies in \<open>[0, num_classes)\<close>, where \<open>num_classes\<close> is the number of
  names in \<open>IDX_2_LABEL\<close>.
\<close>

theorem label_table_inverse:
  "(\<forall>i<length IDX_2_LABEL. LABEL_2_IDX (IDX_2_LABEL ! i) = Some (int i)) \<and>
   (read_voc_annot annot = Inr (labels, bbs) \<longrightarrow>
      map Some labels = map (\<lambda>b. LABEL_2_IDX (obj_name b)) (objects annot) \<and>
      (\<forall>l\<in>set labels. 0 \<le> l \<and> l < int (length IDX_2_LABEL)))"
proof (intro conjI impI allI ballI)
  fix i assume "i < length IDX_2_LABEL"
  moreover have "distinct IDX_2_LABEL" by (simp add: IDX_2_LABEL_def)
  ultimately show "LABEL_2_IDX (IDX_2_LABEL ! i) = Some (int i)"
    unfolding LABEL_2_IDX_def by (simp add: label_dict_nth)
next
  assume r: "read_voc_annot annot = Inr (labels, bbs)"
  show m: "map Some labels = map (\<lambda>b. LABEL_2_IDX (obj_name b)) (objects annot)"
    by (rule read_voc_annot_Inr(1) [OF r])
  fix l assume "l \<in> set labels"
  then have "Some l \<in> set (map Some labels)" by simp
  then have "Some l \<in> set (map (\<lambda>b. LABEL_2_IDX (obj_name b)) (objects annot))"
    by (simp only: m)
  then obtain b :: voc_object where "Some l = LABEL_2_IDX (obj_name b)" by auto
  then have "LABEL_2_IDX (obj_name b) = Some l" by simp
  then have "0 \<le> l \<and> l < int (length IDX_2_LABEL)"
    unfolding LABEL_2_IDX_def by (rule label_dict_range)
  then show "0 \<le> l" and "l < int (length IDX_2_LABEL)" by simp_all
qed

lemma LABEL_2_IDX_bin: "LABEL_2_IDX ''bin'' = Some 0"
  by (simp add: LABEL_2_IDX_def label_dict_def IDX_2_LABEL_def store_label_pair)

theorem label_table_inverse_witness:
  "(0::nat) < length IDX_2_LABEL \<and> LABEL_2_IDX (IDX_2_LABEL ! 0) = Some 0 \<and>
   read_voc_annot \<lparr>size_height = 100, size_width = 200,
       objects = [\<lparr>obj_name = ''bin'', obj_xmin = 20, obj_ymin = 10,
                   obj_xmax = 100, obj_ymax = 50\<rparr>]\<rparr> =
     Inr ([0], [(1 / 10, 1 / 10, 1 / 2, 1 / 2)]) \<and>
   (0 :: int) < int (length IDX_2_LABEL)"
proof -
  have r: "read_voc_annot \<lparr>size_height = 100, size_width = 200,
       objects = [\<lparr>obj_name = ''bin'', obj_xmin = 20, obj_ymin = 10,
                   obj_xmax = 100, obj_ymax = 50\<rparr>]\<rparr> =
     Inr ([0], [(1 / 10, 1 / 10, 1 / 2, 1 / 2)])"
    by (simp add: read_voc_annot_def read_object_def LABEL_2_IDX_bin normalize_bndboxes_def)
  have l: "(0::nat) < length IDX_2_LABEL" by (simp add: IDX_2_LABEL_def)
  from label_table_inverse [of "\<lparr>size_height = 100, size_width = 200,
       objects = [\<lparr>obj_name = ''bin'', obj_xmin = 20, obj_ymin = 10,
                   obj_xmax = 100, obj_ymax = 50\<rparr>]\<rparr>" "[0]" "[(1 / 10, 1 / 10, 1 / 2, 1 / 2)]"] r l
  show ?thesis by auto
qed

subsection \<open>The dataset pipeline\<close>

lemma chunks_props:
  "c \<in> set (chunks n xs) \<Longrightarrow> c \<noteq> [] \<and> length c \<le> n \<and> set c \<subseteq> set xs"
proof (induction n xs rule: chunks.induct)
  case (1 n xs)
  show ?case
  proof (cases "n = 0 \<or> xs = []")
    case True
    with "1.prems" show ?thesis by (simp add: chunks.simps [of n xs])
  next
    case False
    with "1.prems" have "c = take n xs \<or> c \<in> set (chunks n (drop n xs))"
      by (simp add: chunks.simps [of n xs])
    then show ?thesis
    proof
      assume "c = take n xs"
      with False show ?thesis by (auto dest: in_set_takeD)
    next
      assume "c \<in> set (chunks n (drop n xs))"
      from "1.IH" [OF False this] show ?thesis
        by (auto dest: in_set_dropD)
    qed
  qed
qed

lemma fold_max_init: "a \<le> fold max ls (a::nat)"
proof (induction ls arbitrary: a)
  case Nil
  show ?case by simp
next
  case (Cons x xs)
  have "a \<le> max x a" by simp
  also have "\<dots> \<le> fold max xs (max x a)" by (rule Cons.IH)
  finally show ?case by simp
qed

lemma fold_max_ge: "x \<in> set ls \<Longrightarrow> x \<le> fold max ls (a::nat)"
proof (induction ls arbitrary: a)
  case Nil
  then show ?case by simp
next
  case (Cons y ys)
  show ?case
  proof (cases "x = y")
    case True
    have "x \<le> max y a" using True by simp
    also have "\<dots> \<le> fold max ys (max y a)" by (rule fold_max_init)
    finally show ?thesis by simp
  next
    case False
    with Cons.prems have "x \<in> set ys" by simp
    from Cons.IH [OF this, of "max y a"] show ?thesis by simp
  qed
qed

lemma max_length_ge: "row \<in> set rows \<Longrightarrow> length row \<le> max_length rows"
  using fold_max_ge [of "length row" "map length rows" 0] by (simp add: max_length_def)

lemma length_pad_to: "length xs \<le> n \<Longrightarrow> length (pad_to n v xs) = n"
  by (simp add: pad_to_def)

lemma annot_gen_elements:
  "x \<in> set (fst (annot_gen fs)) \<Longrightarrow> \<exists>f\<in>set fs. read_voc_annot f = Inr x"
proof (induction fs arbitrary: x)
  case Nil
  then show ?case by simp
next
  case (Cons f fs)
  show ?case
  proof (cases "read_voc_annot f")
    case (Inl e)
    with Cons.prems show ?thesis by simp
  next
    case (Inr y)
    obtain xs r where g: "annot_gen fs = (xs, r)" by (cases "annot_gen fs") auto
    with Inr have "fst (annot_gen (f # fs)) = y # fst (annot_gen fs)" by simp
    with Cons.prems have "x = y \<or> x \<in> set (fst (annot_gen fs))" by simp
    then show ?thesis
    proof
      assume "x = y"
      with Inr show ?thesis by simp
    next
      assume "x \<in> set (fst (annot_gen fs))"
      from Cons.IH [OF this] show ?thesis by auto
    qed
  qed
qed

lemma remove_nth_subset: "set (remove_nth i xs) \<subseteq> set xs"
  by (auto simp: remove_nth_def dest: in_set_takeD in_set_dropD)

lemma fill_buffer_set:
  "fill_buffer n buf xs = (buf', xs') \<Longrightarrow> set buf' \<union> set xs' \<subseteq> set buf \<union> set xs"
  by (auto simp: fill_buffer_def dest: in_set_takeD in_set_dropD)

lemma shuffle_loop_subset:
  "set (fst (shuffle_loop rnd n k buf xs r)) \<subseteq> set buf \<union> set xs"
proof (induction rnd n k buf xs r rule: shuffle_loop.induct)
  case (1 rnd n k buf xs r)
  obtain buf' xs' where f: "fill_buffer n buf xs = (buf', xs')"
    by (cases "fill_buffer n buf xs") auto
  note sub = fill_buffer_set [OF f]
  show ?case
  proof (cases "(length buf' < n \<and> r \<noteq> None) \<or> buf' = []")
    case True
    then show ?thesis
      by (auto simp add: shuffle_loop.simps [of rnd n k buf xs r] f)
  next
    case False
    then have c1: "\<not> (length buf' < n \<and> r \<noteq> None)" and c2: "buf' \<noteq> []" by auto
    let ?i = "rnd k mod length buf'"
    have i: "?i < length buf'" using c2 by simp
    have IH: "set (fst (shuffle_loop rnd n (Suc k) (remove_nth ?i buf') xs' r))
                \<subseteq> set (remove_nth ?i buf') \<union> set xs'"
      by (rule "1.IH" [OF f [symmetric] c1 c2 refl])
    have "set (fst (shuffle_loop rnd n k buf xs r)) =
          insert (buf' ! ?i) (set (fst (shuffle_loop rnd n (Suc k) (remove_nth ?i buf') xs' r)))"
      using c1 c2
      by (simp add: shuffle_loop.simps [of rnd n k buf xs r] f Let_def
            split: prod.splits)
    also have "\<dots> \<subseteq> set buf' \<union> set xs'"
      using IH remove_nth_subset [of ?i buf'] i by auto
    finally show ?thesis using sub by blast
  qed
qed

lemma shuffle_ds_subset: "set (fst (shuffle_ds n rnd ds)) \<subseteq> set (fst ds)"
  using shuffle_loop_subset [of rnd n 0 "[]" "fst ds" "snd ds"] by (simp add: shuffle_ds_def)

lemma fold_max_mem: "fold max ls (a::nat) \<in> insert a (set ls)"
proof (induction ls arbitrary: a)
  case Nil
  show ?case by simp
next
  case (Cons x xs)
  from Cons.IH [of "max x a"] show ?case by (auto simp: max_def split: if_splits)
qed

lemma max_length_attained:
  assumes "rows \<noteq> []"
  shows "\<exists>row\<in>set rows. length row = max_length rows"
proof (cases "max_length rows = 0")
  case True
  from assms obtain row where row: "row \<in> set rows" by (cases rows) auto
  from max_length_ge [OF row] True have "length row = max_length rows" by simp
  with row show ?thesis by blast
next
  case False
  with fold_max_mem [of "map length rows" 0] show ?thesis
    by (auto simp: max_length_def)
qed

lemma scale_boxes_lengths:
  "scale_boxes ls nb sz = (ls', bs') \<Longrightarrow> ls' = ls \<and> length bs' = length nb"
  by (cases sz) (auto simp: scale_boxes_def split4_def concat4_def tscale_def Let_def)

lemma padded_batch_elements:
  assumes "b \<in> set (fst (padded_batch n sz ds))"
  shows "\<exists>es. es \<noteq> [] \<and> length es \<le> n \<and> set es \<subseteq> set (fst ds) \<and> b = pad_batch sz es"
proof -
  obtain xs r where ds: "ds = (xs, r)" by (cases ds) auto
  let ?ys = "if r = None then xs else take (n * (length xs div n)) xs"
  have n: "n \<noteq> 0"
  proof
    assume "n = 0"
    with assms show False by (simp add: padded_batch_def)
  qed
  with assms ds have "b \<in> pad_batch sz ` set (chunks n ?ys)"
    by (simp add: padded_batch_def)
  then obtain c where c: "c \<in> set (chunks n ?ys)" and b: "b = pad_batch sz c"
    by blast
  from chunks_props [OF c] have "c \<noteq> []" "length c \<le> n" "set c \<subseteq> set ?ys" by simp_all
  moreover have "set ?ys \<subseteq> set xs" by (auto dest: in_set_takeD)
  ultimately show ?thesis using b ds by auto
qed

lemma build_dataset_elements:
  assumes "b \<in> set (fst (build_dataset im_ds annot_files sz shuffle batch_size rnd))"
  shows "\<exists>es. es \<noteq> [] \<and> length es \<le> batch_size \<and> b = pad_batch sz es \<and>
           (\<forall>e\<in>set es. \<exists>f\<in>set annot_files. \<exists>ls nb.
               read_voc_annot f = Inr (ls, nb) \<and> snd e = scale_boxes ls nb sz)"
proof -
  let ?annot_ds = "ds_map (\<lambda>(labels, boxes). scale_boxes labels boxes sz) (annot_gen annot_files)"
  let ?ds = "padded_batch batch_size sz (ds_zip im_ds ?annot_ds)"
  have "set (fst (build_dataset im_ds annot_files sz shuffle batch_size rnd)) \<subseteq> set (fst ?ds)"
    using shuffle_ds_subset [of 128 rnd ?ds] by (auto simp: build_dataset_def Let_def)
  with assms have "b \<in> set (fst ?ds)" by blast
  from padded_batch_elements [OF this] obtain es where es: "es \<noteq> []" "length es \<le> batch_size"
    "set es \<subseteq> set (fst (ds_zip im_ds ?annot_ds))" "b = pad_batch sz es"
    by blast
  have "\<exists>f\<in>set annot_files. \<exists>ls nb. read_voc_annot f = Inr (ls, nb) \<and> snd e = scale_boxes ls nb sz"
    if "e \<in> set es" for e
  proof -
    from that es(3) have "e \<in> set (zip (fst im_ds) (fst ?annot_ds))"
      by (auto simp: ds_zip_def)
    then have "(fst e, snd e) \<in> set (zip (fst im_ds) (fst ?annot_ds))"
      by simp
    then have "snd e \<in> set (fst ?annot_ds)"
      by (rule set_zip_rightD)
    then obtain x where x: "x \<in> set (fst (annot_gen annot_files))"
      and e: "snd e = (\<lambda>(labels, boxes). scale_boxes labels boxes sz) x"
      by (auto simp: ds_map_def)
    from annot_gen_elements [OF x] obtain f where "f \<in> set annot_files" "read_voc_annot f = Inr x"
      by blast
    with e show ?thesis by (cases x) auto
  qed
  with es show ?thesis by blast
qed

lemma scaled_annotation_lengths:
  assumes "read_voc_annot f = Inr (ls, nb)" and "g = scale_boxes ls nb sz"
  shows "length (snd g) = length (fst g)"
proof -
  obtain ls' bs' where g: "scale_boxes ls nb sz = (ls', bs')" by (cases "scale_boxes ls nb sz") auto
  from scale_boxes_lengths [OF g] read_voc_annot_lengths [OF assms(1)] assms(2) g
  show ?thesis by simp
qed

lemma build_dataset_padding:
  assumes "(images, (labels, bbs)) \<in>
             set (fst (build_dataset im_ds annot_files im_input_size shuffle batch_size rnd))"
  shows "\<exists>gts n. gts \<noteq> [] \<and> length gts \<le> batch_size \<and>
           (\<forall>g\<in>set gts. \<exists>f\<in>set annot_files. \<exists>ls nb.
               read_voc_annot f = Inr (ls, nb) \<and> g = scale_boxes ls nb im_input_size) \<and>
           (\<forall>g\<in>set gts. length (fst g) \<le> n \<and> length (snd g) = length (fst g)) \<and>
           (\<exists>g\<in>set gts. length (fst g) = n) \<and>
           labels = map (\<lambda>g. fst g @ replicate (n - length (fst g)) (- 1)) gts \<and>
           bbs = map (\<lambda>g. snd g @ replicate (n - length (snd g)) (0, 0, 0, 0)) gts"
proof -
  from build_dataset_elements [OF assms] obtain es where es: "es \<noteq> []" "length es \<le> batch_size"
    and b: "(images, (labels, bbs)) = pad_batch im_input_size es"
    and src: "\<forall>e\<in>set es. \<exists>f\<in>set annot_files. \<exists>ls nb.
               read_voc_annot f = Inr (ls, nb) \<and> snd e = scale_boxes ls nb im_input_size"
    by blast
  define gts where "gts = map snd es"
  define n where "n = max_length (map fst gts)"
  have src': "\<forall>g\<in>set gts. \<exists>f\<in>set annot_files. \<exists>ls nb.
               read_voc_annot f = Inr (ls, nb) \<and> g = scale_boxes ls nb im_input_size"
    using src by (auto simp: gts_def)
  have len: "length (snd g) = length (fst g)" if "g \<in> set gts" for g
    using src' that scaled_annotation_lengths by blast
  then have "map length (map snd gts) = map length (map fst gts)"
    by simp
  then have n': "max_length (map snd gts) = n"
    unfolding n_def max_length_def by (simp only:)
  have le: "length (fst g) \<le> n" if "g \<in> set gts" for g
    using that max_length_ge [of "fst g" "map fst gts"] by (simp add: n_def)
  have "map fst gts \<noteq> []" using es(1) by (simp add: gts_def)
  from max_length_attained [OF this] have att: "\<exists>g\<in>set gts. length (fst g) = n"
    by (auto simp: n_def)
  have m1: "max_length (map (\<lambda>e. fst (snd e)) es) = n"
    by (simp add: n_def gts_def comp_def)
  have m2: "max_length (map (\<lambda>e. snd (snd e)) es) = n"
    using n' by (simp add: gts_def comp_def)
  from b have "labels = map (pad_to n (- 1)) (map (\<lambda>e. fst (snd e)) es)"
    and "bbs = map (pad_to n (0, 0, 0, 0)) (map (\<lambda>e. snd (snd e)) es)"
    unfolding pad_batch_def Let_def m1 m2 by simp_all
  then have "labels = map (pad_to n (- 1)) (map fst gts)"
    and "bbs = map (pad_to n (0, 0, 0, 0)) (map snd gts)"
    by (simp_all add: gts_def comp_def)
  then have "labels = map (\<lambda>g. fst g @ replicate (n - length (fst g)) (- 1)) gts"
    and "bbs = map (\<lambda>g. snd g @ replicate (n - length (snd g)) (0, 0, 0, 0)) gts"
    by (simp_all add: pad_to_def comp_def)
  moreover have "gts \<noteq> []" "length gts \<le> batch_size" using es by (simp_all add: gts_def)
  ultimately show ?thesis using src' len le att by blast
qed

lemma scaled_in_pixels:
  assumes "normalized_box (x1, y1, x2, y2)" and "0 \<le> h" and "0 \<le> w"
  shows "pixel_box (h, w) (x1 * of_int w, y1 * of_int h, x2 * of_int w, y2 * of_int h)"
proof -
  have r: "0 \<le> a * of_int c \<and> a * of_int c \<le> of_int c" if "0 \<le> a" "a \<le> 1" "0 \<le> c"
    for a :: real and c :: int
    using that by (simp add: mult_left_le_one_le)
  from assms show ?thesis
    by (simp add: normalized_box_def pixel_box_def r)
qed

text \<open>
  C5. In every batch produced by \<open>build_dataset\<close>, the label tensors and the box tensors
  of the images are filled up to one common count \<open>n\<close>, the largest ground-truth count in the
  batch: each row of labels is the labels of an image followed by \<open>-1\<close> entries, and each
  row of boxes is the boxes of that image followed by all-zero boxes.
\<close>

theorem padded_batch_sentinels:
  assumes "(images, (labels, bbs)) \<in>
             set (fst (build_dataset im_ds annot_files im_input_size shuffle batch_size rnd))"
  shows "\<exists>gts n. gts \<noteq> [] \<and> length gts \<le> batch_size \<and>
           (\<forall>g\<in>set gts. \<exists>f\<in>set annot_files. \<exists>ls nb.
               read_voc_annot f = Inr (ls, nb) \<and> g = scale_boxes ls nb im_input_size) \<and>
           (\<forall>g\<in>set gts. length (fst g) \<le> n \<and> length (snd g) = length (fst g)) \<and>
           (\<exists>g\<in>set gts. length (fst g) = n) \<and>
           labels = map (\<lambda>g. fst g @ replicate (n - length (fst g)) (- 1)) gts \<and>
           bbs = map (\<lambda>g. snd g @ replicate (n - length (snd g)) (0, 0, 0, 0)) gts \<and>
           (\<forall>row\<in>set labels. length row = n) \<and> (\<forall>row\<in>set bbs. length row = n)"
proof -
  from build_dataset_padding [OF assms] obtain gts n where
    g: "gts \<noteq> []" "length gts \<le> batch_size"
      "\<forall>g\<in>set gts. \<exists>f\<in>set annot_files. \<exists>ls nb.
               read_voc_annot f = Inr (ls, nb) \<and> g = scale_boxes ls nb im_input_size"
      "\<forall>g\<in>set gts. length (fst g) \<le> n \<and> length (snd g) = length (fst g)"
      "\<exists>g\<in>set gts. length (fst g) = n"
    and l: "labels = map (\<lambda>g. fst g @ replicate (n - length (fst g)) (- 1)) gts"
    and b: "bbs = map (\<lambda>g. snd g @ replicate (n - length (snd g)) (0, 0, 0, 0)) gts"
    by blast
  have "\<forall>row\<in>set labels. length row = n" using g(4) by (auto simp: l)
  moreover have "\<forall>row\<in>set bbs. length row = n" using g(4) by (auto simp: b)
  ultimately show ?thesis using g l b by blast
qed

lemma build_dataset_example:
  "build_dataset ([(), ()], None)
     [\<lparr>size_height = 100, size_width = 200,
         objects = [\<lparr>obj_name = ''bin'', obj_xmin = 20, obj_ymin = 10,
                     obj_xmax = 100, obj_ymax = 50\<rparr>]\<rparr>,
      \<lparr>size_height = 100, size_width = 200,
         objects = [\<lparr>obj_name = ''bin'', obj_xmin = 20, obj_ymin = 10,
                     obj_xmax = 100, obj_ymax = 50\<rparr>,
                    \<lparr>obj_name = ''bin'', obj_xmin = 0, obj_ymin = 0,
                     obj_xmax = 200, obj_ymax = 100\<rparr>]\<rparr>]
     (128, 128) False 2 id =
   ([(\<lparr>t_height = 128, t_width = 128, t_data = [(), ()]\<rparr>,
      ([[0, - 1], [0, 0]],
       [[(64 / 5, 64 / 5, 64, 64), (0, 0, 0, 0)],
        [(64 / 5, 64 / 5, 64, 64), (0, 0, 128, 128)]]))], None)"
  by (simp add: build_dataset_def read_voc_annot_def read_object_step LABEL_2_IDX_bin
      normalize_bndboxes_def ds_map_def ds_zip_def padded_batch_def pad_batch_def
      max_length_def pad_to_def scale_boxes_eq chunks.simps)

theorem padded_batch_sentinels_witness:
  "(\<lparr>t_height = 128, t_width = 128, t_data = [(), ()]\<rparr>,
      ([[0, - 1], [0, 0]],
       [[(64 / 5, 64 / 5, 64, 64), (0, 0, 0, 0)],
        [(64 / 5, 64 / 5, 64, 64), (0, 0, 128, 128)]]))
     \<in> set (fst (build_dataset ([(), ()], None)
         [\<lparr>size_height = 100, size_width = 200,
             objects = [\<lparr>obj_name = ''bin'', obj_xmin = 20, obj_ymin = 10,
                         obj_xmax = 100, obj_ymax = 50\<rparr>]\<rparr>,
          \<lparr>size_height = 100, size_width = 200,
             objects = [\<lparr>obj_name = ''bin'', obj_xmin = 20, obj_ymin = 10,
                         obj_xmax = 100, obj_ymax = 50\<rparr>,
                        \<lparr>obj_name = ''bin'', obj_xmin = 0, obj_ymin = 0,
                         obj_xmax = 200, obj_ymax = 100\<rparr>]\<rparr>]
         (128, 128) False 2 id)) \<and>
   (\<exists>(gts :: (int list \<times> box list) list) n. gts \<noteq> [] \<and> length gts \<le> 2 \<and>
      [[0, - 1], [0, 0]] = map (\<lambda>g. fst g @ replicate (n - length (fst g)) (- 1)) gts \<and>
      [[(64 / 5, 64 / 5, 64, 64), (0, 0, 0, 0)], [(64 / 5, 64 / 5, 64, 64), (0, 0, 128, 128)]] =
        map (\<lambda>g. snd g @ replicate (n - length (snd g)) (0, 0, 0, 0)) gts \<and>
      (\<exists>g\<in>set gts. length (fst g) = n))"
proof -
  let ?files = "[\<lparr>size_height = 100, size_width = 200,
             objects = [\<lparr>obj_name = ''bin'', obj_xmin = 20, obj_ymin = 10,
                         obj_xmax = 100, obj_ymax = 50\<rparr>]\<rparr>,
          \<lparr>size_height = 100, size_width = 200,
             objects = [\<lparr>obj_name = ''bin'', obj_xmin = 20, obj_ymin = 10,
                         obj_xmax = 100, obj_ymax = 50\<rparr>,
                        \<lparr>obj_name = ''bin'', obj_xmin = 0, obj_ymin = 0,
                         obj_xmax = 200, obj_ymax = 100\<rparr>]\<rparr>]"
  have mem: "(\<lparr>t_height = 128, t_width = 128, t_data = [(), ()]\<rparr>,
      ([[0, - 1], [0, 0]],
       [[(64 / 5, 64 / 5, 64, 64), (0, 0, 0, 0)],
        [(64 / 5, 64 / 5, 64, 64), (0, 0, 128, 128)]]))
     \<in> set (fst (build_dataset ([(), ()], None) ?files (128, 128) False 2 id))"
    by (simp add: build_dataset_example)
  have "\<exists>(gts :: (int list \<times> box list) list) n. gts \<noteq> [] \<and> length gts \<le> 2 \<and>
      [[0, - 1], [0, 0]] = map (\<lambda>g. fst g @ replicate (n - length (fst g)) (- 1)) gts \<and>
      [[(64 / 5, 64 / 5, 64, 64), (0, 0, 0, 0)], [(64 / 5, 64 / 5, 64, 64), (0, 0, 128, 128)]] =
        map (\<lambda>g. snd g @ replicate (n - length (snd g)) (0, 0, 0, 0)) gts \<and>
      (\<exists>g\<in>set gts. length (fst g) = n)"
    using padded_batch_sentinels [OF mem]
    by (elim exE conjE) (intro exI conjI; assumption)
  with mem show ?thesis by (intro conjI) assumption+
qed

text \<open>
  C1, as stated, fails: the pipeline maps \<open>_scale_boxes\<close> with the model input size over
  the normalized boxes of the annotations. An object at \<open>(20, 10, 100, 50)\<close> in an image of
  200 by 100 pixels has the normalized box \<open>(0.1, 0.1, 0.5, 0.5)\<close>, and the dataset built
  for the input size 128 by 128 supplies it as \<open>(12.8, 12.8, 64, 64)\<close>.
\<close>

theorem dataset_boxes_not_normalized:
  "read_voc_annot \<lparr>size_height = 100, size_width = 200,
       objects = [\<lparr>obj_name = ''bin'', obj_xmin = 20, obj_ymin = 10,
                   obj_xmax = 100, obj_ymax = 50\<rparr>]\<rparr> =
     Inr ([0], [(1 / 10, 1 / 10, 1 / 2, 1 / 2)]) \<and>
   normalized_box (1 / 10, 1 / 10, 1 / 2, 1 / 2) \<and>
   build_dataset ([()], None)
     [\<lparr>size_height = 100, size_width = 200,
         objects = [\<lparr>obj_name = ''bin'', obj_xmin = 20, obj_ymin = 10,
                     obj_xmax = 100, obj_ymax = 50\<rparr>]\<rparr>]
     (128, 128) False 2 id =
   ([(\<lparr>t_height = 128, t_width = 128, t_data = [()]\<rparr>,
      ([[0]], [[(64 / 5, 64 / 5, 64, 64)]]))], None) \<and>
   \<not> normalized_box (64 / 5, 64 / 5, 64, 64)"
  by (simp add: build_dataset_def read_voc_annot_def read_object_step LABEL_2_IDX_bin
      normalize_bndboxes_def ds_map_def ds_zip_def padded_batch_def pad_batch_def
      max_length_def pad_to_def scale_boxes_eq normalized_box_def chunks.simps)

text \<open>
  C1, amended. Every box of a batch produced by \<open>build_dataset\<close> is the all-zero padding
  box or a normalized-fraction box of an annotation multiplied by the model input size
  (x coordinates by the input width, y coordinates by the input height): the pipeline
  supplies boxes in pixel coordinates of the resized image, which lie in
  \<open>[0, w] \<times> [0, h]\<close> when the normalized box lies in \<open>[0, 1]\<close>.
\<close>

theorem dataset_boxes_in_pixels:
  assumes "(images, (labels, bbs)) \<in>
             set (fst (build_dataset im_ds annot_files (h, w) shuffle batch_size rnd))"
    and "row \<in> set bbs" and "bx \<in> set row"
  shows "bx = (0, 0, 0, 0) \<or>
         (\<exists>f\<in>set annot_files. \<exists>ls nb. read_voc_annot f = Inr (ls, nb) \<and>
            (\<exists>(x1, y1, x2, y2)\<in>set nb.
               bx = (x1 * of_int w, y1 * of_int h, x2 * of_int w, y2 * of_int h) \<and>
               (0 \<le> h \<and> 0 \<le> w \<and> normalized_box (x1, y1, x2, y2) \<longrightarrow> pixel_box (h, w) bx)))"
proof -
  from build_dataset_padding [OF assms(1)] obtain gts n where
    src: "\<forall>g\<in>set gts. \<exists>f\<in>set annot_files. \<exists>ls nb.
               read_voc_annot f = Inr (ls, nb) \<and> g = scale_boxes ls nb (h, w)"
    and b: "bbs = map (\<lambda>g. snd g @ replicate (n - length (snd g)) (0, 0, 0, 0)) gts"
    by blast
  from assms(2) b obtain g where g: "g \<in> set gts"
    and row: "row = snd g @ replicate (n - length (snd g)) (0, 0, 0, 0)"
    by auto
  from assms(3) row have "bx \<in> set (snd g) \<or> bx = (0, 0, 0, 0)"
    by (auto split: if_splits)
  then show ?thesis
  proof
    assume "bx = (0, 0, 0, 0)"
    then show ?thesis by simp
  next
    assume bx: "bx \<in> set (snd g)"
    from src g obtain f ls nb where f: "f \<in> set annot_files"
      and r: "read_voc_annot f = Inr (ls, nb)" and sg: "g = scale_boxes ls nb (h, w)"
      by blast
    from bx sg obtain nbx where nbx: "nbx \<in> set nb"
      and e: "bx = (case nbx of (x1, y1, x2, y2) \<Rightarrow>
                 (x1 * of_int w, y1 * of_int h, x2 * of_int w, y2 * of_int h))"
      by (auto simp: scale_boxes_eq)
    obtain x1 y1 x2 y2 where c: "nbx = (x1, y1, x2, y2)" by (cases nbx) auto
    have "bx = (x1 * of_int w, y1 * of_int h, x2 * of_int w, y2 * of_int h) \<and>
          (0 \<le> h \<and> 0 \<le> w \<and> normalized_box (x1, y1, x2, y2) \<longrightarrow> pixel_box (h, w) bx)"
      using e c scaled_in_pixels [of x1 y1 x2 y2 h w] by simp
    with nbx c have "\<exists>(x1, y1, x2, y2)\<in>set nb.
               bx = (x1 * of_int w, y1 * of_int h, x2 * of_int w, y2 * of_int h) \<and>
               (0 \<le> h \<and> 0 \<le> w \<and> normalized_box (x1, y1, x2, y2) \<longrightarrow> pixel_box (h, w) bx)"
      by (intro bexI [of _ "(x1, y1, x2, y2)"]) auto
    with f r show ?thesis by blast
  qed
qed

theorem dataset_boxes_in_pixels_witness:
  "(\<lparr>t_height = 128, t_width = 128, t_data = [(), ()]\<rparr>,
      ([[0, - 1], [0, 0]],
       [[(64 / 5, 64 / 5, 64, 64), (0, 0, 0, 0)],
        [(64 / 5, 64 / 5, 64, 64), (0, 0, 128, 128)]]))
     \<in> set (fst (build_dataset ([(), ()], None)
         [\<lparr>size_height = 100, size_width = 200,
             objects = [\<lparr>obj_name = ''bin'', obj_xmin = 20, obj_ymin = 10,
                         obj_xmax = 100, obj_ymax = 50\<rparr>]\<rparr>,
          \<lparr>size_height = 100, size_width = 200,
             objects = [\<lparr>obj_name = ''bin'', obj_xmin = 20, obj_ymin = 10,
                         obj_xmax = 100, obj_ymax = 50\<rparr>,
                        \<lparr>obj_name = ''bin'', obj_xmin = 0, obj_ymin = 0,
                         obj_xmax = 200, obj_ymax = 100\<rparr>]\<rparr>]
         (128, 128) False 2 id)) \<and>
   [(64 / 5, 64 / 5, 64, 64), (0, 0, 0, 0)] \<in>
     set [[(64 / 5, 64 / 5, 64, 64), (0, 0, 0, 0)], [(64 / 5, 64 / 5, 64, 64), (0, 0, 128, 128) :: box]] \<and>
   (64 / 5, 64 / 5, 64, 64) \<in> set [(64 / 5, 64 / 5, 64, 64), (0, 0, 0, 0) :: box] \<and>
   ((64 / 5, 64 / 5, 64, 64) = ((0, 0, 0, 0) :: box) \<or>
    (\<exists>f\<in>set [\<lparr>size_height = 100, size_width = 200,
             objects = [\<lparr>obj_name = ''bin'', obj_xmin = 20, obj_ymin = 10,
                         obj_xmax = 100, obj_ymax = 50\<rparr>]\<rparr>,
          \<lparr>size_height = 100, size_width = 200,
             objects = [\<lparr>obj_name = ''bin'', obj_xmin = 20, obj_ymin = 10,
                         obj_xmax = 100, obj_ymax = 50\<rparr>,
                        \<lparr>obj_name = ''bin'', obj_xmin = 0, obj_ymin = 0,
                         obj_xmax = 200, obj_ymax = 100\<rparr>]\<rparr>].
       \<exists>ls nb. read_voc_annot f = Inr (ls, nb) \<and>
         (\<exists>(x1, y1, x2, y2)\<in>set nb.
            (64 / 5, 64 / 5, 64, 64) =
              (x1 * of_int 128, y1 * of_int 128, x2 * of_int 128, y2 * of_int 128) \<and>
            ((0 :: int) \<le> 128 \<and> (0 :: int) \<le> 128 \<and> normalized_box (x1, y1, x2, y2) \<longrightarrow>
               pixel_box (128, 128) (64 / 5, 64 / 5, 64, 64)))))"
proof -
  let ?files = "[\<lparr>size_height = 100, size_width = 200,
             objects = [\<lparr>obj_name = ''bin'', obj_xmin = 20, obj_ymin = 10,
                         obj_xmax = 100, obj_ymax = 50\<rparr>]\<rparr>,
          \<lparr>size_height = 100, size_width = 200,
             objects = [\<lparr>obj_name = ''bin'', obj_xmin = 20, obj_ymin = 10,
                         obj_xmax = 100, obj_ymax = 50\<rparr>,
                        \<lparr>obj_name = ''bin'', obj_xmin = 0, obj_ymin = 0,
                         obj_xmax = 200, obj_ymax = 100\<rparr>]\<rparr>]"
  let ?row = "[(64 / 5, 64 / 5, 64, 64), (0, 0, 0, 0)] :: box list"
  let ?bbs = "[?row, [(64 / 5, 64 / 5, 64, 64), (0, 0, 128, 128)]]"
  have mem: "(\<lparr>t_height = 128, t_width = 128, t_data = [(), ()]\<rparr>, ([[0, - 1], [0, 0]], ?bbs))
     \<in> set (fst (build_dataset ([(), ()], None) ?files (128, 128) False 2 id))"
    by (simp add: build_dataset_example)
  have row: "?row \<in> set ?bbs" by simp
  have bx: "(64 / 5, 64 / 5, 64, 64) \<in> set ?row" by simp
  from mem row bx dataset_boxes_in_pixels [OF mem row bx]
  show ?thesis by (intro conjI) assumption+
qed

subsection \<open>The model at inference\<close>

lemma call_training_utils:
  "call self utils images True = call self utils' images True"
  by (simp add: call_def Let_def split: sum.splits)

lemma call_training_result:
  "call self utils images True = Inr r \<Longrightarrow> \<exists>bboxes class_scores. r = Training bboxes class_scores"
  by (auto simp: call_def Let_def split: sum.splits)

lemma length_chunks: "0 < n \<Longrightarrow> length xs = m * n \<Longrightarrow> length (chunks n xs) = m"
proof (induction m arbitrary: xs)
  case 0
  then show ?case by (simp add: chunks.simps [of n "[]"])
next
  case (Suc m)
  then have ne: "xs \<noteq> []" and d: "length (drop n xs) = m * n" by auto
  from Suc.IH [OF Suc.prems(1) d] ne Suc.prems(1) show ?case
    by (simp add: chunks.simps [of n xs])
qed

lemma length_reshape3: "reshape3 b k t = Inr r \<Longrightarrow> length r = b"
proof -
  assume a: "reshape3 b k t = Inr r"
  let ?flat = "concat t"
  from a have bk: "b * k \<noteq> 0" and m: "length ?flat mod (b * k) = 0"
    by (auto simp: reshape3_def Let_def split: if_splits)
  show "length r = b"
  proof (cases "?flat = []")
    case True
    with a bk m show ?thesis by (auto simp: reshape3_def Let_def split: if_splits)
  next
    case False
    with a bk m have r: "r = map (chunks k) (chunks (length ?flat div b) ?flat)"
      by (auto simp: reshape3_def Let_def split: if_splits)
    from m obtain q where q: "length ?flat = b * k * q" by (auto simp: mod_eq_0_iff_dvd)
    have "q \<noteq> 0"
    proof
      assume "q = 0"
      with q have "length ?flat = 0" by simp
      with False show False by simp
    qed
    with bk q have "0 < length ?flat div b" and "length ?flat = b * (length ?flat div b)"
      by auto
    then show ?thesis using length_chunks [of "length ?flat div b" ?flat b]
      by (simp add: r)
  qed
qed

lemma level_anchors_Inr:
  "level_anchors ps = Inr las \<Longrightarrow> las = map (\<lambda>(g, f). g (fm_shape (f ! 0))) ps"
proof (induction ps arbitrary: las)
  case Nil
  then show ?case by simp
next
  case (Cons p ps)
  obtain g f where p: "p = (g, f)" by (cases p) auto
  from Cons.prems p obtain rest where rest: "level_anchors ps = Inr rest"
    and las: "las = g (fm_shape (f ! 0)) # rest"
    by (auto split: if_splits sum.splits)
  from Cons.IH [OF rest] las p show ?case by simp
qed

lemma level_anchors_zip:
  assumes "level_anchors (zip gs fs) = Inr las"
  shows "las = map (\<lambda>k. (gs ! k) (fm_shape (fs ! k ! 0))) [0..<min (length gs) (length fs)]"
proof -
  have "las = map (\<lambda>(g, f). g (fm_shape (f ! 0))) (zip gs fs)"
    by (rule level_anchors_Inr [OF assms])
  also have "\<dots> = map (\<lambda>k. (gs ! k) (fm_shape (fs ! k ! 0))) [0..<min (length gs) (length fs)]"
    by (rule nth_equalityI) simp_all
  finally show ?thesis .
qed

lemma init_anchors_gen:
  assumes "EfficientDet_init n b nk ch bh AG cfg = Inr self"
  shows "anchors_gen self = map (\<lambda>k. AG (sizes cfg ! k) (ratios cfg) (strides cfg ! k)) [0..<5]"
proof -
  have "[3..<8] = [3, 4, 5, 6, 7 :: nat]" by (simp add: upt_conv_Cons)
  moreover have "[0..<5] = [0, 1, 2, 3, 4 :: nat]" by (simp add: upt_conv_Cons)
  ultimately show ?thesis using assms
    by (auto simp: EfficientDet_init_def split: if_splits)
qed

lemma call_inference:
  assumes "call self utils images False = Inr r"
  shows "\<exists>level_as raw deltas cls.
           level_anchors (zip (anchors_gen self) (neck self (backbone self images False) False))
             = Inr level_as \<and> level_as \<noteq> [] \<and>
           concat_axis1 (map (bb_head self) (neck self (backbone self images False) False))
             = Inr raw \<and>
           length deltas = length raw \<and>
           (\<forall>u. call self u images False =
                  decode_clip_nms u (replicate (length raw) (concat level_as)) deltas cls
                    (t_height images, t_width images))"
proof -
  let ?feats = "neck self (backbone self images False) False"
  from assms obtain raw where raw: "concat_axis1 (map (bb_head self) ?feats) = Inr raw"
    by (auto simp: call_def Let_def split: sum.splits)
  from assms raw obtain sc where sc: "concat_axis1 (map (class_head self) ?feats) = Inr sc"
    by (auto simp: call_def Let_def split: sum.splits)
  from assms raw sc obtain las where
    las: "level_anchors (zip (anchors_gen self) ?feats) = Inr las"
    by (auto simp: call_def Let_def split: sum.splits)
  from assms raw sc las obtain flat where flat: "concat_axis0 las = Inr flat"
    by (auto simp: call_def Let_def split: sum.splits)
  then have ne: "las \<noteq> []" and fl: "flat = concat las"
    by (auto simp: concat_axis0_def split: if_splits)
  from assms raw sc las flat obtain cls where
    cls: "reshape3 (length raw) (num_classes self) sc = Inr cls"
    by (auto simp: call_def Let_def split: sum.splits)
  from assms raw sc las flat cls obtain b4 where b4: "reshape3 (length raw) 4 raw = Inr b4"
    by (auto simp: call_def Let_def split: sum.splits)
  have len: "length (map (map to_box) b4) = length raw"
    using length_reshape3 [OF b4] by simp
  have "call self u images False =
          decode_clip_nms u (replicate (length raw) (concat las)) (map (map to_box) b4) cls
            (t_height images, t_width images)" for u
    by (simp add: call_def Let_def raw sc las flat fl cls b4 decode_clip_nms_def)
  with las ne raw len show ?thesis by blast
qed

text \<open>
  The rows of the regrouped box head output have four entries each, so reading them as
  boxes loses nothing: the boxes handed to the decoding step are the head output itself.
\<close>

lemma chunks_lengths:
  "0 < k \<Longrightarrow> length xs = m * k \<Longrightarrow> c \<in> set (chunks k xs) \<Longrightarrow> length c = k"
proof (induction m arbitrary: xs)
  case 0
  then show ?case by (simp add: chunks.simps [of k "[]"])
next
  case (Suc m)
  then have ne: "xs \<noteq> []" and d: "length (drop k xs) = m * k" and t: "length (take k xs) = k"
    by auto
  from Suc.prems(3) ne Suc.prems(1) have "c = take k xs \<or> c \<in> set (chunks k (drop k xs))"
    by (simp add: chunks.simps [of k xs])
  then show ?case
  proof
    assume "c = take k xs"
    with t show ?thesis by simp
  next
    assume "c \<in> set (chunks k (drop k xs))"
    from Suc.IH [OF Suc.prems(1) d this] show ?thesis .
  qed
qed

lemma reshape3_rows:
  assumes "reshape3 b k t = Inr r" and "blk \<in> set r" and "row \<in> set blk"
  shows "length row = k"
proof -
  let ?flat = "concat t"
  from assms(1) have bk: "b * k \<noteq> 0" and m: "length ?flat mod (b * k) = 0"
    by (auto simp: reshape3_def Let_def split: if_splits)
  show ?thesis
  proof (cases "?flat = []")
    case True
    with assms(1) bk m have "r = replicate b []"
      by (auto simp: reshape3_def Let_def split: if_splits)
    with assms(2,3) show ?thesis by auto
  next
    case False
    with assms(1) bk m have r: "r = map (chunks k) (chunks (length ?flat div b) ?flat)"
      by (auto simp: reshape3_def Let_def split: if_splits)
    from m obtain q where q: "length ?flat = b * k * q" by (auto simp: mod_eq_0_iff_dvd)
    have "q \<noteq> 0"
    proof
      assume "q = 0"
      with q have "length ?flat = 0" by simp
      with False show False by simp
    qed
    with bk q have n: "length ?flat div b = q * k" and pos: "0 < q * k" and k: "0 < k"
      and tot: "length ?flat = b * (q * k)"
      by auto
    from assms(2) r obtain c where c: "c \<in> set (chunks (q * k) ?flat)" and blk: "blk = chunks k c"
      by (auto simp: n)
    from chunks_lengths [OF pos tot c] have "length c = q * k" .
    from chunks_lengths [OF k this] assms(3) blk show ?thesis by simp
  qed
qed

lemma box_row_to_box: "length row = 4 \<Longrightarrow> box_row (to_box row) = row"
proof -
  assume "length row = 4"
  then obtain a b c d where "row = [a, b, c, d]"
    by (auto simp: length_Suc_conv numeral_eq_Suc)
  then show ?thesis by (simp add: box_row_def)
qed

lemma call_inference_inputs:
  assumes "call self utils images False = Inr r"
  shows "\<exists>level_as raw scores rows deltas class_scores.
           level_anchors (zip (anchors_gen self) (neck self (backbone self images False) False))
             = Inr level_as \<and>
           concat_axis1 (map (bb_head self) (neck self (backbone self images False) False))
             = Inr raw \<and>
           concat_axis1 (map (class_head self) (neck self (backbone self images False) False))
             = Inr scores \<and>
           reshape3 (length raw) 4 raw = Inr rows \<and>
           map (map box_row) deltas = rows \<and>
           reshape3 (length raw) (num_classes self) scores = Inr class_scores \<and>
           (\<forall>u. call self u images False =
                  decode_clip_nms u (replicate (length raw) (concat level_as)) deltas
                    class_scores (t_height images, t_width images))"
proof -
  let ?feats = "neck self (backbone self images False) False"
  from assms obtain raw where raw: "concat_axis1 (map (bb_head self) ?feats) = Inr raw"
    by (auto simp: call_def Let_def split: sum.splits)
  from assms raw obtain sc where sc: "concat_axis1 (map (class_head self) ?feats) = Inr sc"
    by (auto simp: call_def Let_def split: sum.splits)
  from assms raw sc obtain las where
    las: "level_anchors (zip (anchors_gen self) ?feats) = Inr las"
    by (auto simp: call_def Let_def split: sum.splits)
  from assms raw sc las obtain flat where flat: "concat_axis0 las = Inr flat"
    by (auto simp: call_def Let_def split: sum.splits)
  then have fl: "flat = concat las"
    by (auto simp: concat_axis0_def split: if_splits)
  from assms raw sc las flat obtain cls where
    cls: "reshape3 (length raw) (num_classes self) sc = Inr cls"
    by (auto simp: call_def Let_def split: sum.splits)
  from assms raw sc las flat cls obtain b4 where b4: "reshape3 (length raw) 4 raw = Inr b4"
    by (auto simp: call_def Let_def split: sum.splits)
  have rows_back: "map (map box_row) (map (map to_box) b4) = b4"
  proof -
    have "map box_row (map to_box blk) = blk" if "blk \<in> set b4" for blk
    proof -
      have "box_row (to_box row) = row" if "row \<in> set blk" for row
        using reshape3_rows [OF b4 \<open>blk \<in> set b4\<close> that] by (rule box_row_to_box)
      then show ?thesis by (simp add: map_idI)
    qed
    then show ?thesis by (simp add: map_idI)
  qed
  have run: "\<forall>u. call self u images False =
          decode_clip_nms u (replicate (length raw) (concat las)) (map (map to_box) b4) cls
            (t_height images, t_width images)"
    by (simp add: call_def Let_def raw sc las flat fl cls b4 decode_clip_nms_def)
  from las raw sc b4 rows_back cls run show ?thesis
    by (intro exI conjI) assumption+
qed

lemma call_training_outputs:
  assumes "call self utils images True = Inr r"
  shows "\<exists>bboxes class_scores.
           concat_axis1 (map (bb_head self) (neck self (backbone self images True) True))
             = Inr bboxes \<and>
           concat_axis1 (map (class_head self) (neck self (backbone self images True) True))
             = Inr class_scores \<and>
           r = Training bboxes class_scores"
  using assms by (auto simp: call_def Let_def split: sum.splits)

text \<open>
  C3. With \<open>training=False\<close>, whenever the model returns, its result is that of decoding
  the predicted deltas against the anchors, then clipping the decoded boxes to the image
  shape, then non-maximum suppression of the clipped boxes with the predicted class scores,
  in this order, whatever the three functions are. The anchors are the anchors of the
  pyramid levels, concatenated and repeated for every image of the batch; the deltas are
  the outputs of the box head over the levels, concatenated and regrouped into boxes of
  four entries; the class scores are the outputs of the class head, concatenated and
  regrouped by class. With \<open>training=True\<close> none of the three functions is applied: the
  result is the pair of concatenated head outputs and does not depend on them.
\<close>

theorem inference_decode_clip_nms:
  "call self utils images True = call self utils' images True \<and>
   (call self utils images True = Inr r \<longrightarrow>
      (\<exists>bboxes class_scores.
         concat_axis1 (map (bb_head self) (neck self (backbone self images True) True))
           = Inr bboxes \<and>
         concat_axis1 (map (class_head self) (neck self (backbone self images True) True))
           = Inr class_scores \<and>
         r = Training bboxes class_scores)) \<and>
   (call self utils images False = Inr r' \<longrightarrow>
      (\<exists>level_as raw scores rows deltas class_scores.
         level_anchors (zip (anchors_gen self) (neck self (backbone self images False) False))
           = Inr level_as \<and>
         level_as =
           map (\<lambda>k. (anchors_gen self ! k)
                       (fm_shape (neck self (backbone self images False) False ! k ! 0)))
               [0..<min (length (anchors_gen self))
                        (length (neck self (backbone self images False) False))] \<and>
         concat_axis1 (map (bb_head self) (neck self (backbone self images False) False))
           = Inr raw \<and>
         concat_axis1 (map (class_head self) (neck self (backbone self images False) False))
           = Inr scores \<and>
         reshape3 (length raw) 4 raw = Inr rows \<and>
         map (map box_row) deltas = rows \<and>
         reshape3 (length raw) (num_classes self) scores = Inr class_scores \<and>
         (\<forall>u. call self u images False =
               decode_clip_nms u (replicate (length raw) (concat level_as)) deltas class_scores
                 (t_height images, t_width images))))"
proof (intro conjI impI)
  show "call self utils images True = call self utils' images True"
    by (rule call_training_utils)
next
  assume "call self utils images True = Inr r"
  then show "\<exists>bboxes class_scores.
         concat_axis1 (map (bb_head self) (neck self (backbone self images True) True))
           = Inr bboxes \<and>
         concat_axis1 (map (class_head self) (neck self (backbone self images True) True))
           = Inr class_scores \<and>
         r = Training bboxes class_scores"
    by (rule call_training_outputs)
next
  let ?feats = "neck self (backbone self images False) False"
  assume "call self utils images False = Inr r'"
  from call_inference_inputs [OF this] obtain level_as raw scores rows deltas cls where
    la: "level_anchors (zip (anchors_gen self) ?feats) = Inr level_as"
    and raw: "concat_axis1 (map (bb_head self) ?feats) = Inr raw"
    and sc: "concat_axis1 (map (class_head self) ?feats) = Inr scores"
    and rows: "reshape3 (length raw) 4 raw = Inr rows"
    and deltas: "map (map box_row) deltas = rows"
    and cls: "reshape3 (length raw) (num_classes self) scores = Inr cls"
    and run: "\<forall>u. call self u images False =
          decode_clip_nms u (replicate (length raw) (concat level_as)) deltas cls
            (t_height images, t_width images)"
    by (elim exE conjE)
  have z: "level_as = map (\<lambda>k. (anchors_gen self ! k) (fm_shape (?feats ! k ! 0)))
               [0..<min (length (anchors_gen self)) (length ?feats)]"
    by (rule level_anchors_zip [OF la])
  from la z raw sc rows deltas cls run
  show "\<exists>level_as raw scores rows deltas class_scores.
         level_anchors (zip (anchors_gen self) ?feats) = Inr level_as \<and>
         level_as = map (\<lambda>k. (anchors_gen self ! k) (fm_shape (?feats ! k ! 0)))
               [0..<min (length (anchors_gen self)) (length ?feats)] \<and>
         concat_axis1 (map (bb_head self) ?feats) = Inr raw \<and>
         concat_axis1 (map (class_head self) ?feats) = Inr scores \<and>
         reshape3 (length raw) 4 raw = Inr rows \<and>
         map (map box_row) deltas = rows \<and>
         reshape3 (length raw) (num_classes self) scores = Inr class_scores \<and>
         (\<forall>u. call self u images False =
               decode_clip_nms u (replicate (length raw) (concat level_as)) deltas class_scores
                 (t_height images, t_width images))"
    by (intro exI conjI) assumption+
qed

theorem inference_decode_clip_nms_witness:
  "call demo_probe_model demo_probe_utils demo_images True =
     Inr (Training [[1, 2, 3, 4, 1, 2, 3, 4, 1, 2, 3, 4, 1, 2, 3, 4, 1, 2, 3, 4],
                    [1, 2, 3, 4, 1, 2, 3, 4, 1, 2, 3, 4, 1, 2, 3, 4, 1, 2, 3, 4]]
                   [[1 / 2, 1 / 2, 1 / 2, 1 / 2, 1 / 2], [1 / 2, 1 / 2, 1 / 2, 1 / 2, 1 / 2]]) \<and>
   call demo_probe_model demo_probe_utils demo_images False =
     Inr (Inference [demo_deltas, demo_deltas] []
            [[1 / 2, 1 / 2, 1 / 2, 1 / 2, 1 / 2], [1 / 2, 1 / 2, 1 / 2, 1 / 2, 1 / 2]]) \<and>
   call demo_probe_model demo_utils demo_images False =
     Inr (Inference [demo_anchors, demo_anchors] [] []) \<and>
   (\<exists>level_as raw scores deltas class_scores.
      concat level_as = demo_anchors \<and>
      raw = ([[1, 2, 3, 4, 1, 2, 3, 4, 1, 2, 3, 4, 1, 2, 3, 4, 1, 2, 3, 4],
              [1, 2, 3, 4, 1, 2, 3, 4, 1, 2, 3, 4, 1, 2, 3, 4, 1, 2, 3, 4]] :: real list list) \<and>
      scores = ([[1 / 2, 1 / 2, 1 / 2, 1 / 2, 1 / 2],
                 [1 / 2, 1 / 2, 1 / 2, 1 / 2, 1 / 2]] :: real list list) \<and>
      deltas = [demo_deltas, demo_deltas] \<and>
      class_scores = [[[1 / 2], [1 / 2], [1 / 2], [1 / 2], [1 / 2]],
                      [[1 / 2], [1 / 2], [1 / 2], [1 / 2], [1 / 2]]] \<and>
      (\<forall>u. call demo_probe_model u demo_images False =
            decode_clip_nms u (replicate (length raw) (concat level_as)) deltas class_scores
              (t_height demo_images, t_width demo_images)))"
proof -
  let ?feats = "neck demo_probe_model (backbone demo_probe_model demo_images False) False"
  let ?raw = "[[1, 2, 3, 4, 1, 2, 3, 4, 1, 2, 3, 4, 1, 2, 3, 4, 1, 2, 3, 4],
               [1, 2, 3, 4, 1, 2, 3, 4, 1, 2, 3, 4, 1, 2, 3, 4, 1, 2, 3, 4]] :: real list list"
  let ?scores = "[[1 / 2, 1 / 2, 1 / 2, 1 / 2, 1 / 2],
                  [1 / 2, 1 / 2, 1 / 2, 1 / 2, 1 / 2]] :: real list list"
  let ?cls = "[[[1 / 2], [1 / 2], [1 / 2], [1 / 2], [1 / 2]],
               [[1 / 2], [1 / 2], [1 / 2], [1 / 2], [1 / 2]]] :: real list list list"
  have t: "call demo_probe_model demo_probe_utils demo_images True = Inr (Training ?raw ?scores)"
    by code_simp
  have i: "call demo_probe_model demo_probe_utils demo_images False =
     Inr (Inference [demo_deltas, demo_deltas] [] ?scores)"
    by code_simp
  have a: "call demo_probe_model demo_utils demo_images False =
     Inr (Inference [demo_anchors, demo_anchors] [] [])"
    by code_simp
  note inst = inference_decode_clip_nms [of demo_probe_model demo_probe_utils demo_images
      demo_probe_utils "Training ?raw ?scores" "Inference [demo_deltas, demo_deltas] [] ?scores"]
  from inst i obtain level_as raw scores rows deltas cls where
    z: "level_as = map (\<lambda>k. (anchors_gen demo_probe_model ! k) (fm_shape (?feats ! k ! 0)))
               [0..<min (length (anchors_gen demo_probe_model)) (length ?feats)]"
    and raw: "concat_axis1 (map (bb_head demo_probe_model) ?feats) = Inr raw"
    and sc: "concat_axis1 (map (class_head demo_probe_model) ?feats) = Inr scores"
    and rows: "reshape3 (length raw) 4 raw = Inr rows"
    and deltas: "map (map box_row) deltas = rows"
    and cls: "reshape3 (length raw) (num_classes demo_probe_model) scores = Inr cls"
    and run: "\<forall>u. call demo_probe_model u demo_images False =
          decode_clip_nms u (replicate (length raw) (concat level_as)) deltas cls
            (t_height demo_images, t_width demo_images)"
    by blast
  from z have ca: "concat level_as = demo_anchors"
    by (simp add: upt_conv_Cons demo_probe_model_def demo_neck_def demo_generator_def
        demo_anchors_def demo_fmap_def)
  have "concat_axis1 (map (bb_head demo_probe_model) ?feats) = Inr ?raw"
    by code_simp
  with raw have r: "raw = ?raw" by simp
  have "concat_axis1 (map (class_head demo_probe_model) ?feats) = Inr ?scores"
    by code_simp
  with sc have s: "scores = ?scores" by simp
  have "reshape3 (length ?raw) (num_classes demo_probe_model) ?scores = Inr ?cls"
    by code_simp
  with cls r s have c: "cls = ?cls" by simp
  have "reshape3 (length ?raw) 4 ?raw = Inr (map (map box_row) [demo_deltas, demo_deltas])"
    by code_simp
  with rows r deltas have "map (map box_row) deltas = map (map box_row) [demo_deltas, demo_deltas]"
    by simp
  moreover have "inj (map (map box_row))"
    by (intro inj_mapI) (auto simp: inj_def box_row_def)
  ultimately have d: "deltas = [demo_deltas, demo_deltas]"
    by (rule injD [rotated])
  from t i a ca r s d c run show ?thesis
    by (intro exI conjI) assumption+
qed

text \<open>
  C4. The constructor builds five anchor generators, one for each of the levels 3 to 7,
  from the five configured sizes and strides. With \<open>training=False\<close>, whenever the model
  returns, the anchors of the levels are concatenated into one flat list, and the anchor
  tensor that is decoded against holds this same list once for every image of the batch;
  when the neck returns five levels, the flat list is made of the anchors of all five
  generators, each applied to the shape of its level's feature map.
\<close>

theorem anchors_tiled_across_batch:
  "(EfficientDet_init n b nk ch bh AnchorGenerator config = Inr self' \<longrightarrow>
      anchors_gen self' =
        map (\<lambda>k. AnchorGenerator (sizes config ! k) (ratios config) (strides config ! k))
            [0..<5]) \<and>
   (call self utils images False = Inr r \<longrightarrow>
      (\<exists>level_as raw deltas class_scores.
         level_anchors (zip (anchors_gen self) (neck self (backbone self images False) False))
           = Inr level_as \<and>
         level_as =
           map (\<lambda>k. (anchors_gen self ! k)
                       (fm_shape (neck self (backbone self images False) False ! k ! 0)))
               [0..<min (length (anchors_gen self))
                        (length (neck self (backbone self images False) False))] \<and>
         concat_axis1 (map (bb_head self) (neck self (backbone self images False) False))
           = Inr raw \<and>
         length deltas = length raw \<and>
         (\<forall>u. call self u images False =
               decode_clip_nms u (replicate (length raw) (concat level_as)) deltas class_scores
                 (t_height images, t_width images)) \<and>
         (\<forall>i<length raw. replicate (length raw) (concat level_as) ! i = concat level_as)))"
proof (intro conjI impI)
  assume "EfficientDet_init n b nk ch bh AnchorGenerator config = Inr self'"
  then show "anchors_gen self' =
        map (\<lambda>k. AnchorGenerator (sizes config ! k) (ratios config) (strides config ! k))
            [0..<5]"
    by (rule init_anchors_gen)
next
  let ?feats = "neck self (backbone self images False) False"
  assume "call self utils images False = Inr r"
  from call_inference [OF this] obtain level_as raw deltas cls where
    la: "level_anchors (zip (anchors_gen self) ?feats) = Inr level_as"
    and raw: "concat_axis1 (map (bb_head self) ?feats) = Inr raw"
    and len: "length deltas = length raw"
    and c: "\<forall>u. call self u images False =
          decode_clip_nms u (replicate (length raw) (concat level_as)) deltas cls
            (t_height images, t_width images)"
    by blast
  have z: "level_as = map (\<lambda>k. (anchors_gen self ! k) (fm_shape (?feats ! k ! 0)))
               [0..<min (length (anchors_gen self)) (length ?feats)]"
    by (rule level_anchors_zip [OF la])
  have t: "\<forall>i<length raw. replicate (length raw) (concat level_as) ! i = concat level_as"
    by simp
  from la z raw len c t
  show "\<exists>level_as raw deltas class_scores.
         level_anchors (zip (anchors_gen self) ?feats) = Inr level_as \<and>
         level_as = map (\<lambda>k. (anchors_gen self ! k) (fm_shape (?feats ! k ! 0)))
               [0..<min (length (anchors_gen self)) (length ?feats)] \<and>
         concat_axis1 (map (bb_head self) ?feats) = Inr raw \<and>
         length deltas = length raw \<and>
         (\<forall>u. call self u images False =
               decode_clip_nms u (replicate (length raw) (concat level_as)) deltas class_scores
                 (t_height images, t_width images)) \<and>
         (\<forall>i<length raw. replicate (length raw) (concat level_as) ! i = concat level_as)"
    by (intro exI conjI) assumption+
qed

theorem anchors_tiled_across_batch_witness:
  "EfficientDet_init 1 demo_backbone demo_neck demo_class_head demo_bb_head demo_generator
     demo_config = Inr demo_model \<and>
   anchors_gen demo_model =
     map (\<lambda>k. demo_generator (sizes demo_config ! k) (ratios demo_config)
                               (strides demo_config ! k)) [0..<5] \<and>
   call demo_model demo_utils demo_images False =
     Inr (Inference [demo_anchors, demo_anchors] [] []) \<and>
   (\<exists>level_as raw deltas class_scores.
      level_anchors (zip (anchors_gen demo_model)
          (neck demo_model (backbone demo_model demo_images False) False)) = Inr level_as \<and>
      concat level_as = demo_anchors \<and>
      concat_axis1 (map (bb_head demo_model)
          (neck demo_model (backbone demo_model demo_images False) False)) = Inr raw \<and>
      length raw = 2 \<and>
      length deltas = length raw \<and>
      (\<forall>u. call demo_model u demo_images False =
            decode_clip_nms u (replicate (length raw) (concat level_as)) deltas class_scores
              (t_height demo_images, t_width demo_images)))"
proof -
  let ?feats = "neck demo_model (backbone demo_model demo_images False) False"
  have init: "EfficientDet_init 1 demo_backbone demo_neck demo_class_head demo_bb_head
      demo_generator demo_config = Inr demo_model"
    by (simp add: EfficientDet_init_def demo_config_def demo_model_def upt_conv_Cons)
  have run: "call demo_model demo_utils demo_images False =
     Inr (Inference [demo_anchors, demo_anchors] [] [])"
    by code_simp
  note inst = anchors_tiled_across_batch [of 1 demo_backbone demo_neck demo_class_head
      demo_bb_head demo_generator demo_config demo_model demo_model demo_utils demo_images
      "Inference [demo_anchors, demo_anchors] [] []"]
  from inst init have gens: "anchors_gen demo_model =
     map (\<lambda>k. demo_generator (sizes demo_config ! k) (ratios demo_config)
                               (strides demo_config ! k)) [0..<5]"
    by blast
  from inst run obtain level_as raw deltas cls where
    la: "level_anchors (zip (anchors_gen demo_model) ?feats) = Inr level_as"
    and z: "level_as = map (\<lambda>k. (anchors_gen demo_model ! k) (fm_shape (?feats ! k ! 0)))
               [0..<min (length (anchors_gen demo_model)) (length ?feats)]"
    and raw: "concat_axis1 (map (bb_head demo_model) ?feats) = Inr raw"
    and len: "length deltas = length raw"
    and c: "\<forall>u. call demo_model u demo_images False =
          decode_clip_nms u (replicate (length raw) (concat level_as)) deltas cls
            (t_height demo_images, t_width demo_images)"
    by blast
  from z have ca: "concat level_as = demo_anchors"
    by (simp add: upt_conv_Cons demo_model_def demo_neck_def demo_generator_def
        demo_anchors_def demo_fmap_def)
  have "concat_axis1 (map (bb_head demo_model) ?feats) =
        Inr [[0, 0, 0, 0, 0, 0, 0, 0, 0, 0, 0, 0, 0, 0, 0, 0, 0, 0, 0, 0],
             [0, 0, 0, 0, 0, 0, 0, 0, 0, 0, 0, 0, 0, 0, 0, 0, 0, 0, 0, 0]]"
    by code_simp
  with raw have lr: "length raw = 2" by auto
  from init gens run la ca raw lr len c show ?thesis
    by (intro exI conjI) assumption+
qed

end
